theory Spec2Isabelle
  imports Main "HOL-Library.AList"
begin

section \<open>The Egg language: data model\<close>

text \<open>
  The three kinds of failure the interpreter throws, and two outcomes of the model itself:
  \<open>OutOfFuel\<close> (the evaluation did not finish within the given number of steps; the
  source would keep running) and \<open>Unmodelled\<close> (a host operation whose result lies outside
  the values kept here, such as a fraction, a number beyond the exactly representable
  integers, or the conversion of an array to text).
\<close>

datatype error = SyntaxError | ReferenceError | TypeError | OutOfFuel | Unmodelled

text \<open>
  An environment is a host object with a prototype: \<open>Env i proto\<close> is the object whose own
  properties are kept at index \<open>i\<close> of the store, and whose prototype is \<open>proto\<close>
  (\<open>None\<close> for \<open>Object.create(null)\<close>). The prototype of an object never changes.
\<close>

datatype env = Env nat "env option"

text \<open>
  Expressions are objects with \<open>type\<close> "value", "word" or "apply". Values are what
  \<open>evaluate\<close> returns. Numbers are the integers that a double represents exactly; a
  function made by \<open>fun\<close> keeps its parameter names, its body and the environment it was
  made in; the functions of \<open>topEnv\<close> are \<open>Native\<close> with their name.
\<close>

datatype expr = Value val | Word string | Apply expr "expr list"
  and val = Undefined | Number int | Text string | Boolean bool | Array "val list"
    | Function "string list" expr env | Native string

section \<open>The parser\<close>

text \<open>
  Strings are lists of 8-bit characters. The classes of the regular expressions: \<open>\s\<close>,
  the line terminators that \<open>.\<close> does not match, \<open>\d\<close>, and \<open>\w\<close> (for \<open>\b\<close>).
\<close>

definition white_space :: "char \<Rightarrow> bool" where
  "white_space c =
     (c \<in> set [CHR 0x09, CHR ''\<newline>'', CHR 0x0B, CHR 0x0C, CHR 0x0D, CHR '' '', CHR 0xA0])"

definition line_terminator :: "char \<Rightarrow> bool" where
  "line_terminator c = (c \<in> set [CHR ''\<newline>'', CHR 0x0D])"

definition digit :: "char \<Rightarrow> bool" where
  "digit c = (c \<in> set ''0123456789'')"

definition word_char :: "char \<Rightarrow> bool" where
  "word_char c =
     (c \<in> set ''abcdefghijklmnopqrstuvwxyzABCDEFGHIJKLMNOPQRSTUVWXYZ0123456789_'')"

text \<open>
  \<open>toSkip\<close> is the text matched by \<open>/(\s|#.*)*/\<close> at the start of the string: each
  round takes one white-space character, or a \<open>#\<close> and everything up to the next line
  terminator. The pattern matches the empty text too, so the match never fails.
\<close>

function toSkip :: "string \<Rightarrow> string" where
  "toSkip [] = []"
| "toSkip (c # cs) =
     (if white_space c then c # toSkip cs
      else if c = CHR ''#'' then
        c # takeWhile (\<lambda>d. \<not> line_terminator d) cs
          @ toSkip (dropWhile (\<lambda>d. \<not> line_terminator d) cs)
      else [])"
  by pat_completeness auto
termination
  by (relation "measure length") (auto simp: less_Suc_eq_le length_dropWhile_le)

definition skipSpace :: "string \<Rightarrow> string" where
  "skipSpace string = drop (length (toSkip string)) string"

text \<open>
  The three token patterns of \<open>parseExpression\<close>. \<open>match_string\<close> returns the group of
  \<open>/^"([^"]*)"/\<close> (the whole match is two characters longer); \<open>match_number\<close> the match of
  \<open>/^\d+\b/\<close>, which exists only when the run of digits is not followed by a word
  character; \<open>match_word\<close> the match of \<open>/^[^\s(),"]+/\<close>.
\<close>

definition match_string :: "string \<Rightarrow> string option" where
  "match_string program =
     (case program of
        [] \<Rightarrow> None
      | c # cs \<Rightarrow>
          if c = CHR 0x22 \<and> dropWhile (\<lambda>d. d \<noteq> CHR 0x22) cs \<noteq> []
          then Some (takeWhile (\<lambda>d. d \<noteq> CHR 0x22) cs) else None)"

definition match_number :: "string \<Rightarrow> string option" where
  "match_number program =
     (let ds = takeWhile digit program; after = dropWhile digit program in
      if ds \<noteq> [] \<and> (after = [] \<or> \<not> word_char (hd after)) then Some ds else None)"

definition match_word :: "string \<Rightarrow> string option" where
  "match_word program =
     (let w = takeWhile (\<lambda>c. \<not> white_space c
                \<and> c \<notin> set [CHR ''('', CHR '')'', CHR '','', CHR 0x22]) program in
      if w \<noteq> [] then Some w else None)"

definition digit_value :: "char \<Rightarrow> nat" where
  "digit_value c = of_char c - 48"

text \<open>
  \<open>Number(match[0])\<close> on a run of decimal digits: the number the digits denote. (Above
  \<open>2 ^ 53\<close> the host rounds it to the nearest double; the operators of the model give no
  result on such numbers.)
\<close>

definition to_Number :: "string \<Rightarrow> int" where
  "to_Number ds = int (foldl (\<lambda>n c. 10 * n + digit_value c) 0 ds)"

text \<open>
  \<open>parseExpression\<close> and \<open>parseApply\<close> return the pair \<open>{expr, rest}\<close>. \<open>parseArgs\<close> is
  the \<open>while (program[0] != ")")\<close> loop of \<open>parseApply\<close>, with the argument list built so
  far; it returns at the closing parenthesis, which \<open>parseApply\<close> then drops.
  \<open>program[0]\<close> is \<open>take 1 program\<close>: on the empty string it equals no character.
\<close>

function parseExpression :: "string \<Rightarrow> error + expr \<times> string"
  and parseApply :: "expr \<Rightarrow> string \<Rightarrow> error + expr \<times> string"
  and parseArgs :: "expr list \<Rightarrow> string \<Rightarrow> error + expr list \<times> string"
where
  "parseExpression program0 =
     (let program = skipSpace program0 in
      case match_string program of
        Some m \<Rightarrow> parseApply (Value (Text m)) (drop (length m + 2) program)
      | None \<Rightarrow>
         (case match_number program of
            Some m \<Rightarrow> parseApply (Value (Number (to_Number m))) (drop (length m) program)
          | None \<Rightarrow>
             (case match_word program of
                Some m \<Rightarrow> parseApply (Word m) (drop (length m) program)
              | None \<Rightarrow> Inl SyntaxError)))"
| "parseApply expr program0 =
     (let program = skipSpace program0 in
      if take 1 program \<noteq> ''('' then Inr (expr, program)
      else case parseArgs [] (skipSpace (drop 1 program)) of
             Inl e \<Rightarrow> Inl e
           | Inr (args, program') \<Rightarrow> parseApply (Apply expr args) (drop 1 program'))"
| "parseArgs args program =
     (if take 1 program = '')'' then Inr (args, program)
      else case parseExpression program of
             Inl e \<Rightarrow> Inl e
           | Inr (arg, rest) \<Rightarrow>
              (let program' = skipSpace rest in
               if take 1 program' = '','' then
                 parseArgs (args @ [arg]) (skipSpace (drop 1 program'))
               else if take 1 program' \<noteq> '')'' then Inl SyntaxError
               else parseArgs (args @ [arg]) program'))"
  by pat_completeness auto

subsection \<open>The parser terminates: every call returns a shorter rest\<close>

lemma length_skipSpace: "length (skipSpace s) \<le> length s"
  by (simp add: skipSpace_def)

lemma match_string_length: "match_string x = Some m \<Longrightarrow> length m + 2 \<le> length x"
proof -
  assume a: "match_string x = Some m"
  then obtain cs where x: "x = CHR 0x22 # cs" and d: "dropWhile (\<lambda>d. d \<noteq> CHR 0x22) cs \<noteq> []"
    and m: "m = takeWhile (\<lambda>d. d \<noteq> CHR 0x22) cs"
    by (auto simp: match_string_def split: list.splits if_splits)
  have "length (takeWhile (\<lambda>d. d \<noteq> CHR 0x22) cs)
      + length (dropWhile (\<lambda>d. d \<noteq> CHR 0x22) cs) = length cs"
    by (metis length_append takeWhile_dropWhile_id)
  moreover have "0 < length (dropWhile (\<lambda>d. d \<noteq> CHR 0x22) cs)" using d by simp
  ultimately show ?thesis unfolding x m length_Cons by linarith
qed

lemma match_number_length:
  "match_number x = Some m \<Longrightarrow> 0 < length m \<and> length m \<le> length x"
  by (auto simp: match_number_def Let_def length_takeWhile_le split: if_splits)

lemma match_word_length:
  "match_word x = Some m \<Longrightarrow> 0 < length m \<and> length m \<le> length x"
  by (auto simp: match_word_def Let_def length_takeWhile_le split: if_splits)

lemma drop_token_length:
  "0 < length m \<and> length m \<le> length p \<Longrightarrow> length p \<le> length q
     \<Longrightarrow> length (drop (length m) p) < length q"
  unfolding length_drop by linarith

lemma drop_string_length:
  "length m + 2 \<le> length p \<Longrightarrow> length p \<le> length q
     \<Longrightarrow> length (drop (length m + 2) p) < length q"
  unfolding length_drop by linarith

lemma after_string:
  "match_string (skipSpace p) = Some m
     \<Longrightarrow> length (drop (length m + 2) (skipSpace p)) < length p"
  by (rule drop_string_length[OF match_string_length length_skipSpace])

lemma after_number:
  "match_number (skipSpace p) = Some m \<Longrightarrow> length (drop (length m) (skipSpace p)) < length p"
  by (rule drop_token_length[OF match_number_length length_skipSpace])

lemma after_word:
  "match_word (skipSpace p) = Some m \<Longrightarrow> length (drop (length m) (skipSpace p)) < length p"
  by (rule drop_token_length[OF match_word_length length_skipSpace])

lemma parse_rest_dom:
  "parseExpression_parseApply_parseArgs_dom (Inl program0) \<Longrightarrow>
     (\<forall>e r. parseExpression program0 = Inr (e, r) \<longrightarrow> length r < length program0)"
  "parseExpression_parseApply_parseArgs_dom (Inr (Inl (expr, program1))) \<Longrightarrow>
     (\<forall>e r. parseApply expr program1 = Inr (e, r) \<longrightarrow> length r \<le> length program1)"
  "parseExpression_parseApply_parseArgs_dom (Inr (Inr (args, program2))) \<Longrightarrow>
     (\<forall>a r. parseArgs args program2 = Inr (a, r) \<longrightarrow> length r \<le> length program2)"
proof (induction rule: parseExpression_parseApply_parseArgs.pinduct)
  case (1 program0)
  show ?case
  proof (intro allI impI)
    fix e r assume res: "parseExpression program0 = Inr (e, r)"
    let ?p = "skipSpace program0"
    show "length r < length program0"
    proof (cases "match_string ?p")
      case (Some m)
      with res 1(1) have "parseApply (Value (Text m)) (drop (length m + 2) ?p) = Inr (e, r)"
        by (simp add: parseExpression.psimps)
      with 1(4)[OF refl Some] have "length r \<le> length (drop (length m + 2) ?p)" by blast
      with after_string[OF Some] show ?thesis by linarith
    next
      case None
      note ns = this
      show ?thesis
      proof (cases "match_number ?p")
        case (Some m)
        with res 1(1) ns
        have "parseApply (Value (Number (to_Number m))) (drop (length m) ?p) = Inr (e, r)"
          by (simp add: parseExpression.psimps)
        with 1(3)[OF refl ns Some] have "length r \<le> length (drop (length m) ?p)" by blast
        with after_number[OF Some] show ?thesis by linarith
      next
        case None
        note nn = this
        show ?thesis
        proof (cases "match_word ?p")
          case (Some m)
          with res 1(1) ns nn have "parseApply (Word m) (drop (length m) ?p) = Inr (e, r)"
            by (simp add: parseExpression.psimps)
          with 1(2)[OF refl ns nn Some] have "length r \<le> length (drop (length m) ?p)" by blast
          with after_word[OF Some] show ?thesis by linarith
        next
          case None
          with res 1(1) ns nn show ?thesis by (simp add: parseExpression.psimps)
        qed
      qed
    qed
  qed
next
  case (2 expr program0)
  show ?case
  proof (intro allI impI)
    fix e r assume res: "parseApply expr program0 = Inr (e, r)"
    let ?p = "skipSpace program0"
    have le: "length ?p \<le> length program0" by (rule length_skipSpace)
    show "length r \<le> length program0"
    proof (cases "take 1 ?p \<noteq> ''(''")
      case True
      with res 2(1) have "r = ?p" by (simp add: parseApply.psimps)
      with le show ?thesis by simp
    next
      case False
      then have par: "\<not> take 1 ?p \<noteq> ''(''" by simp
      from res 2(1) False obtain args p' where
        a: "parseArgs [] (skipSpace (drop 1 ?p)) = Inr (args, p')"
        and b: "parseApply (Apply expr args) (drop 1 p') = Inr (e, r)"
        by (auto simp: parseApply.psimps split: sum.splits)
      from 2(2)[OF refl par] a have "length p' \<le> length (skipSpace (drop 1 ?p))" by blast
      moreover from 2(3)[OF refl par a refl] b have "length r \<le> length (drop 1 p')" by blast
      moreover have "length (skipSpace (drop 1 ?p)) \<le> length (drop 1 ?p)"
        by (rule length_skipSpace)
      ultimately show ?thesis using le by simp
    qed
  qed
next
  case (3 args program)
  show ?case
  proof (intro allI impI)
    fix a r assume res: "parseArgs args program = Inr (a, r)"
    show "length r \<le> length program"
    proof (cases "take 1 program = '')''")
      case True
      with res 3(1) show ?thesis by (simp add: parseArgs.psimps)
    next
      case False
      from res 3(1) False obtain arg rest where
        pe: "parseExpression program = Inr (arg, rest)"
        by (auto simp: parseArgs.psimps split: sum.splits)
      from 3(2)[OF False] pe have lt: "length rest < length program" by blast
      let ?p' = "skipSpace rest"
      have le: "length ?p' \<le> length rest" by (rule length_skipSpace)
      show ?thesis
      proof (cases "take 1 ?p' = '',''")
        case True
        with res 3(1) False pe
        have "parseArgs (args @ [arg]) (skipSpace (drop 1 ?p')) = Inr (a, r)"
          by (simp add: parseArgs.psimps)
        with 3(3)[OF False pe refl refl True]
        have "length r \<le> length (skipSpace (drop 1 ?p'))" by blast
        moreover have "length (skipSpace (drop 1 ?p')) \<le> length (drop 1 ?p')"
          by (rule length_skipSpace)
        ultimately show ?thesis using le lt by simp
      next
        case nc: False
        show ?thesis
        proof (cases "take 1 ?p' \<noteq> '')''")
          case True
          with res 3(1) False pe nc show ?thesis by (simp add: parseArgs.psimps)
        next
          case np: False
          with res 3(1) False pe nc have "parseArgs (args @ [arg]) ?p' = Inr (a, r)"
            by (simp add: parseArgs.psimps)
          with 3(4)[OF False pe refl refl nc np] have "length r \<le> length ?p'" by blast
          with le lt show ?thesis by simp
        qed
      qed
    qed
  qed
qed

termination parseExpression
proof (relation "measure (\<lambda>x. case x of Inl p \<Rightarrow> 2 * length p
                                 | Inr (Inl (e, p)) \<Rightarrow> 2 * length p + 1
                                 | Inr (Inr (a, p)) \<Rightarrow> 2 * length p + 1)", goal_cases)
  case 1
  then show ?case by simp
next
  case (2 program0 x x2)
  then show ?case
    using after_string[of program0 x2] after_number[of program0 x2] after_word[of program0 x2]
    by auto
next
  case (3 program0 x x2)
  then show ?case
    using after_string[of program0 x2] after_number[of program0 x2] after_word[of program0 x2]
    by auto
next
  case (4 program0 x x2)
  then show ?case
    using after_string[of program0 x2] after_number[of program0 x2] after_word[of program0 x2]
    by auto
next
  case (5 expr program0 x)
  then have "x \<noteq> []" by auto
  then have "length (drop 1 x) < length x" by simp
  moreover have "length (skipSpace (drop 1 x)) \<le> length (drop 1 x)" by (rule length_skipSpace)
  moreover have "length x \<le> length program0" using 5(1) length_skipSpace by simp
  ultimately have "length (skipSpace (drop 1 x)) < length program0" by linarith
  then show ?case by simp
next
  case (6 expr program0 x b xa y)
  then have "x \<noteq> []" by auto
  then have "length (drop 1 x) < length x" by simp
  moreover have "length (skipSpace (drop 1 x)) \<le> length (drop 1 x)" by (rule length_skipSpace)
  moreover have "length x \<le> length program0" using 6(1) length_skipSpace by simp
  moreover have "length y \<le> length (skipSpace (drop 1 x))"
    using parse_rest_dom(3)[OF 6(5)] 6(3,4) by auto
  ultimately have "length (drop 1 y) < length program0" unfolding length_drop by linarith
  then show ?case by simp
next
  case (7 args program)
  then show ?case by simp
next
  case (8 args program b x y xa)
  have "length y < length program" using parse_rest_dom(1)[OF 8(6)] 8(2,3) by auto
  moreover have "length xa \<le> length y" using 8(4) length_skipSpace by simp
  moreover have "length (skipSpace (drop 1 xa)) \<le> length (drop 1 xa)"
    by (rule length_skipSpace)
  ultimately have "length (skipSpace (drop 1 xa)) < length program"
    unfolding length_drop by linarith
  then show ?case by simp
next
  case (9 args program b x y xa)
  have "length y < length program" using parse_rest_dom(1)[OF 9(7)] 9(2,3) by auto
  moreover have "length xa \<le> length y" using 9(4) length_skipSpace by simp
  ultimately have "length xa < length program" by linarith
  then show ?case by simp
qed

declare parseExpression.simps [simp del] parseApply.simps [simp del] parseArgs.simps [simp del]

text \<open>\<open>parse\<close> accepts the expression when only separators follow it.\<close>

definition parse :: "string \<Rightarrow> error + expr" where
  "parse program =
     (case parseExpression program of
        Inl e \<Rightarrow> Inl e
      | Inr (expr, rest) \<Rightarrow>
          if length (skipSpace rest) > 0 then Inl SyntaxError else Inr expr)"

text \<open>
  A separator text: any sequence of white-space characters and of comments, each comment
  running from \<open>#\<close> to a line terminator that is part of the text.
\<close>

function separators :: "string \<Rightarrow> bool" where
  "separators [] = True"
| "separators (c # cs) =
     (if white_space c then separators cs
      else c = CHR ''#'' \<and> dropWhile (\<lambda>d. \<not> line_terminator d) cs \<noteq> []
           \<and> separators (dropWhile (\<lambda>d. \<not> line_terminator d) cs))"
  by pat_completeness auto
termination
  by (relation "measure length") (auto simp: less_Suc_eq_le length_dropWhile_le)

text \<open>
  The text of an expression: a text that \<open>parseExpression\<close> reads up to a closing
  parenthesis put after it, giving that expression. \<open>commas\<close> joins argument texts with
  commas.
\<close>

definition expression_text :: "string \<Rightarrow> expr \<Rightarrow> bool" where
  "expression_text A a = (parseExpression (A @ '')'') = Inr (a, '')''))"

fun commas :: "string list \<Rightarrow> string" where
  "commas [] = []"
| "commas [x] = x"
| "commas (x # y # ys) = x @ '','' @ commas (y # ys)"

text \<open>
  Two notions for the proofs about the parser: the token at the start of a text, as
  \<open>parseExpression\<close> finds it (the expression and the length of the match), and a text that
  starts with a parenthesis or a comma.
\<close>

definition next_token :: "string \<Rightarrow> (expr \<times> nat) option" where
  "next_token p =
     (case match_string p of
        Some m \<Rightarrow> Some (Value (Text m), length m + 2)
      | None \<Rightarrow>
         (case match_number p of
            Some m \<Rightarrow> Some (Value (Number (to_Number m)), length m)
          | None \<Rightarrow>
             (case match_word p of
                Some m \<Rightarrow> Some (Word m, length m)
              | None \<Rightarrow> None)))"

definition hard :: "string \<Rightarrow> bool" where
  "hard z = (take 1 z = ''('' \<or> take 1 z = '')'' \<or> take 1 z = '','')"

section \<open>The evaluator\<close>

subsection \<open>Environments\<close>

text \<open>
  The state of an evaluation: the own properties of every environment object, in the
  order the properties were created, and the values \<open>print\<close> has written to the console.
\<close>

record state =
  frames :: "(string \<times> val) list list"
  console :: "val list"

type_synonym result = "error + val \<times> state"

type_synonym evaluator = "expr \<Rightarrow> env \<Rightarrow> state \<Rightarrow> result"

definition own :: "state \<Rightarrow> env \<Rightarrow> (string \<times> val) list" where
  "own s env = (case env of Env i _ \<Rightarrow> if i < length (frames s) then frames s ! i else [])"

definition hasOwnProperty :: "state \<Rightarrow> env \<Rightarrow> string \<Rightarrow> bool" where
  "hasOwnProperty s env name = (map_of (own s env) name \<noteq> None)"

text \<open>\<open>name in env\<close> and \<open>env[name]\<close> follow the prototype chain.\<close>

fun has_property :: "string \<Rightarrow> env \<Rightarrow> state \<Rightarrow> bool" where
  "has_property name (Env i None) s = hasOwnProperty s (Env i None) name"
| "has_property name (Env i (Some proto)) s =
     (hasOwnProperty s (Env i (Some proto)) name \<or> has_property name proto s)"

fun get_property :: "env \<Rightarrow> string \<Rightarrow> state \<Rightarrow> val" where
  "get_property (Env i None) name s =
     (case map_of (own s (Env i None)) name of Some v \<Rightarrow> v | None \<Rightarrow> Undefined)"
| "get_property (Env i (Some proto)) name s =
     (case map_of (own s (Env i (Some proto))) name of
        Some v \<Rightarrow> v
      | None \<Rightarrow> get_property proto name s)"

text \<open>\<open>env[name] = v\<close> writes an own property of \<open>env\<close>, whatever its prototypes hold.\<close>

definition put_property :: "env \<Rightarrow> string \<Rightarrow> val \<Rightarrow> state \<Rightarrow> state" where
  "put_property env name v s =
     (case env of
        Env i _ \<Rightarrow> s\<lparr>frames := (frames s)[i := AList.update name v (own s env)]\<rparr>)"

definition Object_create :: "env \<Rightarrow> state \<Rightarrow> env \<times> state" where
  "Object_create proto s =
     (Env (length (frames s)) (Some proto), s\<lparr>frames := frames s @ [[]]\<rparr>)"

subsection \<open>The functions of the global environment\<close>

text \<open>
  A double represents every integer up to \<open>2 ^ 53\<close> in absolute value, and its arithmetic
  is exact when the operands and the result are such integers. Outside that, the result
  is \<open>Unmodelled\<close>; so are a quotient that is not an integer and a zero that would carry
  a minus sign.
\<close>

definition safe :: "int \<Rightarrow> bool" where
  "safe n = (- (2 ^ 53) \<le> n \<and> n \<le> 2 ^ 53)"

definition exact :: "int \<Rightarrow> int \<Rightarrow> int \<Rightarrow> error + val" where
  "exact a b r = (if safe a \<and> safe b \<and> safe r then Inr (Number r) else Inl Unmodelled)"

definition number_eq :: "int \<Rightarrow> int \<Rightarrow> error + val" where
  "number_eq a b = (if safe a \<and> safe b then Inr (Boolean (a = b)) else Inl Unmodelled)"

text \<open>
  The host's conversion of a text to a number, where the text is blank (it is 0) or a run
  of decimal digits between white space; other texts (a sign, a fraction, an exponent,
  another radix, or no number at all) are outside the model.
\<close>

definition trim :: "string \<Rightarrow> string" where
  "trim s = rev (dropWhile white_space (rev (dropWhile white_space s)))"

definition StringToNumber :: "string \<Rightarrow> int option" where
  "StringToNumber s =
     (let t = trim s in
      if t = [] then Some 0 else if list_all digit t then Some (to_Number t) else None)"

definition number_text_eq :: "int \<Rightarrow> string \<Rightarrow> error + val" where
  "number_text_eq a t =
     (case StringToNumber t of Some b \<Rightarrow> number_eq a b | None \<Rightarrow> Inl Unmodelled)"

definition ToNumber_Boolean :: "bool \<Rightarrow> int" where
  "ToNumber_Boolean b = (if b then 1 else 0)"

text \<open>
  The host's \<open>a == b\<close>: operands of one type are compared as they are; a Boolean is
  converted to a number first, and a text compared with a number is converted to a number.
  The identity of arrays and functions is not kept in the model.
\<close>

fun loose_equals :: "val \<Rightarrow> val \<Rightarrow> error + val" where
  "loose_equals (Number a) (Number b) = number_eq a b"
| "loose_equals (Text a) (Text b) = Inr (Boolean (a = b))"
| "loose_equals (Boolean a) (Boolean b) = Inr (Boolean (a = b))"
| "loose_equals Undefined Undefined = Inr (Boolean True)"
| "loose_equals (Number a) (Text b) = number_text_eq a b"
| "loose_equals (Text a) (Number b) = number_text_eq b a"
| "loose_equals (Boolean a) (Number b) = number_eq (ToNumber_Boolean a) b"
| "loose_equals (Number a) (Boolean b) = number_eq a (ToNumber_Boolean b)"
| "loose_equals (Boolean a) (Text b) = number_text_eq (ToNumber_Boolean a) b"
| "loose_equals (Text a) (Boolean b) = number_text_eq (ToNumber_Boolean b) a"
| "loose_equals Undefined (Number b) = Inr (Boolean False)"
| "loose_equals Undefined (Text b) = Inr (Boolean False)"
| "loose_equals Undefined (Boolean b) = Inr (Boolean False)"
| "loose_equals (Number a) Undefined = Inr (Boolean False)"
| "loose_equals (Text a) Undefined = Inr (Boolean False)"
| "loose_equals (Boolean a) Undefined = Inr (Boolean False)"
| "loose_equals _ _ = Inl Unmodelled"

text \<open>
  \<open>new Function("a, b", "return a " + op + " b;")\<close> for the seven operators: the host's
  operator on the two arguments.
\<close>

definition operators :: "string list" where
  "operators = [''+'', ''-'', ''*'', ''/'', ''=='', ''<'', ''>'']"

fun binary_operator :: "string \<Rightarrow> val \<Rightarrow> val \<Rightarrow> error + val" where
  "binary_operator op (Number a) (Number b) =
     (if op = ''+'' then exact a b (a + b)
      else if op = ''-'' then exact a b (a - b)
      else if op = ''*'' then
        (if (a = 0 \<and> b < 0) \<or> (b = 0 \<and> a < 0) then Inl Unmodelled else exact a b (a * b))
      else if op = ''/'' then
        (if b = 0 \<or> \<not> b dvd a \<or> (a = 0 \<and> b < 0) then Inl Unmodelled
         else exact a b (a div b))
      else if op = ''=='' then number_eq a b
      else if op = ''<'' then
        (if safe a \<and> safe b then Inr (Boolean (a < b)) else Inl Unmodelled)
      else if op = ''>'' then
        (if safe a \<and> safe b then Inr (Boolean (a > b)) else Inl Unmodelled)
      else Inl Unmodelled)"
| "binary_operator op (Text a) (Text b) =
     (if op = ''+'' then Inr (Text (a @ b))
      else if op = ''=='' then Inr (Boolean (a = b))
      else Inl Unmodelled)"
| "binary_operator op a b = (if op = ''=='' then loose_equals a b else Inl Unmodelled)"

text \<open>A parameter the call gave no argument for is \<open>undefined\<close>; extra arguments are ignored.\<close>

definition argument :: "val list \<Rightarrow> nat \<Rightarrow> val" where
  "argument arguments i = (if i < length arguments then arguments ! i else Undefined)"

text \<open>\<open>arr.length\<close> and \<open>arr[elm]\<close>; reading a property of \<open>undefined\<close> throws a TypeError.\<close>

definition topEnv_length :: "val \<Rightarrow> error + val" where
  "topEnv_length arr =
     (case arr of
        Array xs \<Rightarrow> Inr (Number (int (length xs)))
      | Text t \<Rightarrow> Inr (Number (int (length t)))
      | Number _ \<Rightarrow> Inr Undefined
      | Boolean _ \<Rightarrow> Inr Undefined
      | Undefined \<Rightarrow> Inl TypeError
      | _ \<Rightarrow> Inl Unmodelled)"

definition topEnv_element :: "val \<Rightarrow> val \<Rightarrow> error + val" where
  "topEnv_element arr elm =
     (case arr of
        Undefined \<Rightarrow> Inl TypeError
      | Array xs \<Rightarrow>
          (case elm of
             Number i \<Rightarrow>
               if \<not> safe i then Inl Unmodelled
               else if 0 \<le> i \<and> i < int (length xs) then Inr (xs ! nat i) else Inr Undefined
           | _ \<Rightarrow> Inl Unmodelled)
      | _ \<Rightarrow> Inl Unmodelled)"

definition call_native :: "string \<Rightarrow> val list \<Rightarrow> state \<Rightarrow> result" where
  "call_native name arguments s =
     (if name \<in> set operators then
        (case binary_operator name (argument arguments 0) (argument arguments 1) of
           Inl e \<Rightarrow> Inl e
         | Inr v \<Rightarrow> Inr (v, s))
      else if name = ''print'' then
        Inr (argument arguments 0, s\<lparr>console := console s @ [argument arguments 0]\<rparr>)
      else if name = ''array'' then Inr (Array arguments, s)
      else if name = ''length'' then
        (case topEnv_length (argument arguments 0) of
           Inl e \<Rightarrow> Inl e
         | Inr v \<Rightarrow> Inr (v, s))
      else if name = ''element'' then
        (case topEnv_element (argument arguments 0) (argument arguments 1) of
           Inl e \<Rightarrow> Inl e
         | Inr v \<Rightarrow> Inr (v, s))
      else Inl Unmodelled)"

definition topEnv :: env where
  "topEnv = Env 0 None"

definition topEnv_properties :: "(string \<times> val) list" where
  "topEnv_properties =
     [(''true'', Boolean True), (''false'', Boolean False)]
     @ map (\<lambda>op. (op, Native op)) operators
     @ [(''print'', Native ''print''), (''array'', Native ''array''),
        (''length'', Native ''length''), (''element'', Native ''element'')]"

text \<open>The store once the script has been loaded: \<open>topEnv\<close> alone, nothing printed.\<close>

definition initial :: state where
  "initial = \<lparr>frames = [topEnv_properties], console = []\<rparr>"

subsection \<open>Special forms\<close>

text \<open>
  Every special form takes the evaluator it calls for its sub-expressions (\<open>evaluate\<close> with
  the steps that are left), the number of rounds a loop may still make, the argument
  expressions as parsed, and the environment.
\<close>

definition is_word :: "expr \<Rightarrow> bool" where
  "is_word expr = (case expr of Word _ \<Rightarrow> True | _ \<Rightarrow> False)"

definition name_of :: "expr \<Rightarrow> string" where
  "name_of expr = (case expr of Word name \<Rightarrow> name | _ \<Rightarrow> [])"

definition specialForms_if ::
  "evaluator \<Rightarrow> nat \<Rightarrow> expr list \<Rightarrow> env \<Rightarrow> state \<Rightarrow> result" where
  "specialForms_if ev k args env s =
     (if length args \<noteq> 3 then Inl SyntaxError
      else case ev (args ! 0) env s of
             Inl e \<Rightarrow> Inl e
           | Inr (c, s1) \<Rightarrow>
               if c \<noteq> Boolean False then ev (args ! 1) env s1 else ev (args ! 2) env s1)"

primrec while_loop ::
  "evaluator \<Rightarrow> nat \<Rightarrow> expr \<Rightarrow> expr \<Rightarrow> env \<Rightarrow> state \<Rightarrow> result" where
  "while_loop ev 0 cond body env s = Inl OutOfFuel"
| "while_loop ev (Suc k) cond body env s =
     (case ev cond env s of
        Inl e \<Rightarrow> Inl e
      | Inr (c, s1) \<Rightarrow>
          if c \<noteq> Boolean False then
            (case ev body env s1 of
               Inl e \<Rightarrow> Inl e
             | Inr (_, s2) \<Rightarrow> while_loop ev k cond body env s2)
          else Inr (Boolean False, s1))"

definition specialForms_while ::
  "evaluator \<Rightarrow> nat \<Rightarrow> expr list \<Rightarrow> env \<Rightarrow> state \<Rightarrow> result" where
  "specialForms_while ev k args env s =
     (if length args \<noteq> 2 then Inl SyntaxError
      else while_loop ev k (args ! 0) (args ! 1) env s)"

primrec forEach_do :: "evaluator \<Rightarrow> expr list \<Rightarrow> env \<Rightarrow> val \<Rightarrow> state \<Rightarrow> result" where
  "forEach_do ev [] env v s = Inr (v, s)"
| "forEach_do ev (arg # args) env v s =
     (case ev arg env s of
        Inl e \<Rightarrow> Inl e
      | Inr (v1, s1) \<Rightarrow> forEach_do ev args env v1 s1)"

definition specialForms_do ::
  "evaluator \<Rightarrow> nat \<Rightarrow> expr list \<Rightarrow> env \<Rightarrow> state \<Rightarrow> result" where
  "specialForms_do ev k args env s = forEach_do ev args env (Boolean False) s"

definition specialForms_define ::
  "evaluator \<Rightarrow> nat \<Rightarrow> expr list \<Rightarrow> env \<Rightarrow> state \<Rightarrow> result" where
  "specialForms_define ev k args env s =
     (if length args \<noteq> 2 \<or> \<not> is_word (args ! 0) then Inl SyntaxError
      else case ev (args ! 1) env s of
             Inl e \<Rightarrow> Inl e
           | Inr (v, s1) \<Rightarrow> Inr (v, put_property env (name_of (args ! 0)) v s1))"

text \<open>
  \<open>fun\<close> returns a host function closed over \<open>argNames\<close>, \<open>body\<close> and \<open>env\<close>; the model
  keeps the three, and \<open>apply_function\<close> below is the body of that host function.
\<close>

definition specialForms_fun ::
  "evaluator \<Rightarrow> nat \<Rightarrow> expr list \<Rightarrow> env \<Rightarrow> state \<Rightarrow> result" where
  "specialForms_fun ev k args env s =
     (if args = [] then Inl SyntaxError
      else if \<not> list_all is_word (butlast args) then Inl SyntaxError
      else Inr (Function (map name_of (butlast args)) (last args) env, s))"

text \<open>
  The loop of \<open>set\<close>: it runs while the environment at hand has a prototype, and moves to
  the prototype when the environment does not own the name.
\<close>

fun set_walk :: "string \<Rightarrow> val \<Rightarrow> env \<Rightarrow> state \<Rightarrow> result" where
  "set_walk toSet v (Env i None) s = Inl ReferenceError"
| "set_walk toSet v (Env i (Some proto)) s =
     (if hasOwnProperty s (Env i (Some proto)) toSet
      then Inr (v, put_property (Env i (Some proto)) toSet v s)
      else set_walk toSet v proto s)"

definition specialForms_set ::
  "evaluator \<Rightarrow> nat \<Rightarrow> expr list \<Rightarrow> env \<Rightarrow> state \<Rightarrow> result" where
  "specialForms_set ev k args env s =
     (if length args \<noteq> 2 \<or> \<not> is_word (args ! 0) then Inl SyntaxError
      else case ev (args ! 1) env s of
             Inl e \<Rightarrow> Inl e
           | Inr (v, s1) \<Rightarrow> set_walk (name_of (args ! 0)) v env s1)"

text \<open>The table \<open>specialForms\<close>, an object without prototype: it has these six names only.\<close>

definition specialForms ::
  "string \<Rightarrow> (evaluator \<Rightarrow> nat \<Rightarrow> expr list \<Rightarrow> env \<Rightarrow> state \<Rightarrow> result) option" where
  "specialForms =
     map_of [(''if'', specialForms_if), (''while'', specialForms_while),
             (''do'', specialForms_do), (''define'', specialForms_define),
             (''fun'', specialForms_fun), (''set'', specialForms_set)]"

subsection \<open>Application and \<open>evaluate\<close>\<close>

text \<open>\<open>expr.args.map(...)\<close>: the arguments are evaluated from left to right.\<close>

primrec map_evaluate ::
  "evaluator \<Rightarrow> expr list \<Rightarrow> env \<Rightarrow> state \<Rightarrow> error + val list \<times> state" where
  "map_evaluate ev [] env s = Inr ([], s)"
| "map_evaluate ev (arg # args) env s =
     (case ev arg env s of
        Inl e \<Rightarrow> Inl e
      | Inr (v, s1) \<Rightarrow>
          (case map_evaluate ev args env s1 of
             Inl e \<Rightarrow> Inl e
           | Inr (vs, s2) \<Rightarrow> Inr (v # vs, s2)))"

definition is_function :: "val \<Rightarrow> bool" where
  "is_function v = (case v of Function _ _ _ \<Rightarrow> True | Native _ \<Rightarrow> True | _ \<Rightarrow> False)"

text \<open>
  The loop \<open>localEnv[argNames[i]] = arguments[i]\<close>; it runs when both lists have the same
  length.
\<close>

definition bind_arguments :: "env \<Rightarrow> string list \<Rightarrow> val list \<Rightarrow> state \<Rightarrow> state" where
  "bind_arguments localEnv argNames arguments s =
     fold (\<lambda>(name, v). put_property localEnv name v) (zip argNames arguments) s"

definition apply_function :: "evaluator \<Rightarrow> val \<Rightarrow> val list \<Rightarrow> state \<Rightarrow> result" where
  "apply_function ev f arguments s =
     (case f of
        Function argNames body env \<Rightarrow>
          if length arguments \<noteq> length argNames then Inl TypeError
          else (case Object_create env s of
                  (localEnv, s1) \<Rightarrow>
                    ev body localEnv (bind_arguments localEnv argNames arguments s1))
      | Native name \<Rightarrow> call_native name arguments s
      | _ \<Rightarrow> Inl TypeError)"

text \<open>
  \<open>evaluate\<close> with a bound on the depth of nested evaluations: the first argument is the
  number of nested calls that may still be made, and a \<open>while\<close> loop entered with \<open>n\<close>
  left makes at most \<open>n\<close> rounds.
\<close>

fun evaluate :: "nat \<Rightarrow> expr \<Rightarrow> env \<Rightarrow> state \<Rightarrow> result" where
  "evaluate 0 expr env s = Inl OutOfFuel"
| "evaluate (Suc n) (Value v) env s = Inr (v, s)"
| "evaluate (Suc n) (Word name) env s =
     (if has_property name env s then Inr (get_property env name s, s)
      else Inl ReferenceError)"
| "evaluate (Suc n) (Apply operator args) env s =
     (case (case operator of Word name \<Rightarrow> specialForms name | _ \<Rightarrow> None) of
        Some form \<Rightarrow> form (evaluate n) n args env s
      | None \<Rightarrow>
          (case evaluate n operator env s of
             Inl e \<Rightarrow> Inl e
           | Inr (op, s1) \<Rightarrow>
               if \<not> is_function op then Inl TypeError
               else (case map_evaluate (evaluate n) args env s1 of
                       Inl e \<Rightarrow> Inl e
                     | Inr (vals, s2) \<Rightarrow> apply_function (evaluate n) op vals s2)))"

text \<open>\<open>run\<close>: a fresh environment under \<open>topEnv\<close>, the arguments joined by newlines.\<close>

fun join :: "string list \<Rightarrow> string" where
  "join [] = []"
| "join [x] = x"
| "join (x # y # ys) = x @ ''\<newline>'' @ join (y # ys)"

definition run :: "nat \<Rightarrow> string list \<Rightarrow> result" where
  "run fuel arguments =
     (case Object_create topEnv initial of
        (env, s) \<Rightarrow>
          (case parse (join arguments) of
             Inl e \<Rightarrow> Inl e
           | Inr expr \<Rightarrow> evaluate fuel expr env s))"

definition result_value :: "result \<Rightarrow> error + val" where
  "result_value r = (case r of Inl e \<Rightarrow> Inl e | Inr (v, s) \<Rightarrow> Inr v)"

text \<open>
  An evaluator extends another when it gives the same outcome wherever the other one
  finishes within its steps.
\<close>

definition extends :: "evaluator \<Rightarrow> evaluator \<Rightarrow> bool" where
  "extends ev ev' = (\<forall>e env s. ev e env s \<noteq> Inl OutOfFuel \<longrightarrow> ev' e env s = ev e env s)"

section \<open>Properties of the parser\<close>

text \<open>
  C9: parsing the text \<open>+(a, 10)\<close> succeeds with the application of the word \<open>+\<close> to the
  word \<open>a\<close> and the number 10, in that order.
\<close>

theorem parse_plus_a_10:
  "parse ''+(a, 10)'' = Inr (Apply (Word ''+'') [Word ''a'', Value (Number 10)])"
  by code_simp

subsection \<open>Separators\<close>

lemma hash_not_white_space: "\<not> white_space CHR ''#''"
  by (simp add: white_space_def)

lemma skipSpace_Nil: "skipSpace [] = []"
  by (simp add: skipSpace_def)

lemma skipSpace_white_space: "white_space c \<Longrightarrow> skipSpace (c # s) = skipSpace s"
  by (simp add: skipSpace_def)

lemma skipSpace_comment:
  "skipSpace (CHR ''#'' # s) = skipSpace (dropWhile (\<lambda>d. \<not> line_terminator d) s)"
  by (simp add: skipSpace_def hash_not_white_space dropWhile_eq_drop add.commute)

lemma skipSpace_other:
  "\<not> white_space c \<Longrightarrow> c \<noteq> CHR ''#'' \<Longrightarrow> skipSpace (c # s) = c # s"
  by (simp add: skipSpace_def)

lemma skipSpace_separators: "separators a \<Longrightarrow> skipSpace (a @ p) = skipSpace p"
proof (induction a rule: separators.induct)
  case 1
  then show ?case by simp
next
  case (2 c cs)
  show ?case
  proof (cases "white_space c")
    case True
    with 2 show ?thesis by (simp add: skipSpace_white_space)
  next
    case False
    with 2(3) have c: "c = CHR ''#''"
      and d: "dropWhile (\<lambda>d. \<not> line_terminator d) cs \<noteq> []"
      and s: "separators (dropWhile (\<lambda>d. \<not> line_terminator d) cs)"
      by auto
    from d have "\<exists>x\<in>set cs. \<not> \<not> line_terminator x" by (simp add: dropWhile_eq_Nil_conv)
    then have "dropWhile (\<lambda>d. \<not> line_terminator d) (cs @ p)
             = dropWhile (\<lambda>d. \<not> line_terminator d) cs @ p"
      by (auto simp: dropWhile_append1)
    with 2(2)[OF False] c d s show ?thesis by (simp add: skipSpace_comment)
  qed
qed



subsection \<open>What \<open>skipSpace\<close> leaves\<close>

lemma skipSpace_suffix: "\<exists>w. s = w @ skipSpace s"
proof
  show "s = take (length (toSkip s)) s @ skipSpace s" by (simp add: skipSpace_def)
qed

lemma skipSpace_split: "skipSpace s = q \<Longrightarrow> q \<noteq> [] \<Longrightarrow> \<exists>w. s = w @ q \<and> separators w"
proof (induction s rule: toSkip.induct)
  case 1
  then show ?case by (simp add: skipSpace_Nil)
next
  case (2 c cs)
  show ?case
  proof (cases "white_space c")
    case True
    with 2(3) have "skipSpace cs = q" by (simp add: skipSpace_white_space)
    from 2(1)[OF True this 2(4)] obtain w where "cs = w @ q" "separators w" by blast
    with True have "c # cs = (c # w) @ q \<and> separators (c # w)" by simp
    then show ?thesis by blast
  next
    case False
    note nw = this
    show ?thesis
    proof (cases "c = CHR ''#''")
      case True
      let ?d = "dropWhile (\<lambda>d. \<not> line_terminator d) cs"
      let ?t = "takeWhile (\<lambda>d. \<not> line_terminator d) cs"
      from True 2(3) have sk: "skipSpace ?d = q" by (simp add: skipSpace_comment)
      from 2(2)[OF nw True sk 2(4)] obtain w where w: "?d = w @ q" "separators w" by blast
      have dne: "?d \<noteq> []"
      proof
        assume "?d = []"
        with sk have "q = []" by (simp add: skipSpace_Nil)
        with 2(4) show False by simp
      qed
      then have lt: "line_terminator (hd ?d)" using hd_dropWhile[of "\<lambda>d. \<not> line_terminator d" cs] by auto
      have wne: "w \<noteq> []"
      proof
        assume "w = []"
        with w have "?d = q" by simp
        with sk have "skipSpace q = q" by simp
        moreover from 2(4) obtain h r where q: "q = h # r" by (cases q) auto
        moreover from lt \<open>?d = q\<close> q have "white_space h"
          by (auto simp: line_terminator_def white_space_def)
        ultimately have "skipSpace r = h # r" by (simp add: skipSpace_white_space)
        then have "length (h # r) \<le> length r" using length_skipSpace[of r] by simp
        then show False by simp
      qed
      with w lt have hw: "line_terminator (hd w)" by (cases w) auto
      have "dropWhile (\<lambda>d. \<not> line_terminator d) (?t @ w)
          = dropWhile (\<lambda>d. \<not> line_terminator d) w"
        by (rule dropWhile_append2) (auto dest: set_takeWhileD)
      moreover have "dropWhile (\<lambda>d. \<not> line_terminator d) w = w"
        using wne hw by (cases w) auto
      ultimately have "dropWhile (\<lambda>d. \<not> line_terminator d) (?t @ w) = w" by simp
      then have "separators (CHR ''#'' # ?t @ w)"
        using w wne by (simp add: hash_not_white_space)
      moreover have "c # cs = (CHR ''#'' # ?t @ w) @ q"
        using True w takeWhile_dropWhile_id[of "\<lambda>d. \<not> line_terminator d" cs] by simp
      ultimately show ?thesis by blast
    next
      case False
      with nw 2(3) have "c # cs = [] @ q \<and> separators []" by (simp add: skipSpace_other)
      then show ?thesis by blast
    qed
  qed
qed

lemma skipSpace_head: "skipSpace s = c # r \<Longrightarrow> \<not> white_space c \<and> c \<noteq> CHR ''#''"
proof (induction s rule: toSkip.induct)
  case 1
  then show ?case by (simp add: skipSpace_Nil)
next
  case (2 d ds)
  show ?case
  proof (cases "white_space d")
    case True
    with 2 show ?thesis by (simp add: skipSpace_white_space)
  next
    case False
    show ?thesis
    proof (cases "d = CHR ''#''")
      case True
      with 2(2)[OF False True] 2(3) show ?thesis by (simp add: skipSpace_comment)
    next
      case nh: False
      with False 2(3) show ?thesis by (simp add: skipSpace_other)
    qed
  qed
qed

lemma skipSpace_fixed: "s = [] \<or> (\<not> white_space (hd s) \<and> hd s \<noteq> CHR ''#'') \<Longrightarrow> skipSpace s = s"
  by (cases s) (auto simp: skipSpace_Nil skipSpace_other)

lemma skipSpace_idem: "skipSpace (skipSpace s) = skipSpace s"
proof (cases "skipSpace s")
  case Nil
  then show ?thesis by (simp add: skipSpace_Nil)
next
  case (Cons c r)
  with skipSpace_head[OF Cons] show ?thesis by (simp add: skipSpace_other)
qed

lemma skipSpace_same_head:
  "skipSpace (x @ z) = x @ z \<Longrightarrow> x \<noteq> [] \<Longrightarrow> skipSpace (x @ z') = x @ z'"
proof -
  assume a: "skipSpace (x @ z) = x @ z" and x: "x \<noteq> []"
  then obtain c r where "x = c # r" by (cases x) auto
  with a skipSpace_head[of "x @ z" c "r @ z"] show ?thesis by (simp add: skipSpace_other)
qed

lemma hard_cases: "hard z \<Longrightarrow> \<exists>c r. z = c # r \<and> c \<in> set ''(),''"
  by (cases z) (auto simp: hard_def)

lemma hard_skipSpace: "hard z \<Longrightarrow> skipSpace z = z"
  by (auto dest!: hard_cases simp: skipSpace_other white_space_def)

lemma parseApply_skip: "skipSpace p = skipSpace q \<Longrightarrow> parseApply ex p = parseApply ex q"
  by (simp add: parseApply.simps[of ex p] parseApply.simps[of ex q])

lemma parseExpression_skip: "skipSpace p = skipSpace q \<Longrightarrow> parseExpression p = parseExpression q"
  by (simp add: parseExpression.simps[of p] parseExpression.simps[of q])

lemma parseApply_stop:
  "take 1 z = '')'' \<or> take 1 z = '','' \<Longrightarrow> parseApply ex z = Inr (ex, z)"
proof -
  assume a: "take 1 z = '')'' \<or> take 1 z = '',''"
  then have "hard z" by (auto simp: hard_def)
  then have "skipSpace z = z" by (rule hard_skipSpace)
  with a show ?thesis by (auto simp: parseApply.simps[of ex z])
qed

subsection \<open>Tokens end inside the text they were found in\<close>

lemma parseExpression_token:
  "parseExpression p0 =
     (case next_token (skipSpace p0) of
        None \<Rightarrow> Inl SyntaxError
      | Some (tok, n) \<Rightarrow> parseApply tok (drop n (skipSpace p0)))"
  by (simp add: parseExpression.simps[of p0] next_token_def split: option.splits)

lemma next_token_length: "next_token p = Some (tok, n) \<Longrightarrow> 0 < n \<and> n \<le> length p"
  using match_string_length[of p] match_number_length[of p] match_word_length[of p]
  by (auto simp: next_token_def split: option.splits)

lemma takeWhile_short:
  "length (takeWhile P (x @ z)) < length x \<Longrightarrow> \<exists>c\<in>set x. \<not> P c"
proof (rule ccontr)
  assume l: "length (takeWhile P (x @ z)) < length x" and "\<not> (\<exists>c\<in>set x. \<not> P c)"
  then have "takeWhile P (x @ z) = x @ takeWhile P z" by (simp add: takeWhile_append2)
  with l show False by simp
qed

lemma takeWhile_local:
  assumes "length (takeWhile P (x @ z)) \<le> length x" and "z' = [] \<or> \<not> P (hd z')"
  shows "takeWhile P (x @ z') = takeWhile P (x @ z)"
proof (cases "\<exists>c\<in>set x. \<not> P c")
  case True
  then show ?thesis by (auto simp: takeWhile_append1)
next
  case False
  then have a: "takeWhile P (x @ z) = x @ takeWhile P z"
    and b: "takeWhile P (x @ z') = x @ takeWhile P z'"
    by (simp_all add: takeWhile_append2)
  from a assms(1) have "takeWhile P z = []" by simp
  moreover from assms(2) have "takeWhile P z' = []" by (cases z') auto
  ultimately show ?thesis using a b by simp
qed

lemma takeWhile_length_mono:
  "(\<And>c. P c \<Longrightarrow> Q c) \<Longrightarrow> length (takeWhile P s) \<le> length (takeWhile Q s)"
  by (induction s) auto

lemma hard_head: "hard z' \<Longrightarrow> z' \<noteq> [] \<and> \<not> digit (hd z') \<and> \<not> word_char (hd z')
    \<and> \<not> (\<not> white_space (hd z') \<and> hd z' \<notin> set [CHR ''('', CHR '')'', CHR '','', CHR 0x22])"
  by (auto dest!: hard_cases simp: digit_def word_char_def)

lemma match_string_local:
  assumes "match_string (x @ z) = Some m" and "length m + 2 \<le> length x"
  shows "match_string (x @ z') = Some m"
proof -
  let ?nq = "\<lambda>d. d \<noteq> CHR 0x22"
  from assms(1) obtain cs where xz: "x @ z = CHR 0x22 # cs"
    and m: "m = takeWhile ?nq cs"
    by (auto simp: match_string_def split: list.splits if_splits)
  from assms(2) obtain x1 where x: "x = CHR 0x22 # x1" using xz by (cases x) auto
  with xz have cs: "cs = x1 @ z" by simp
  from assms(2) m x cs have "length (takeWhile ?nq (x1 @ z)) < length x1" by simp
  then have ex: "\<exists>c\<in>set x1. \<not> ?nq c" by (rule takeWhile_short)
  then have "takeWhile ?nq (x1 @ z') = takeWhile ?nq (x1 @ z)"
    by (simp add: takeWhile_append1)
  moreover from ex have "dropWhile ?nq (x1 @ z') \<noteq> []" by auto
  ultimately show ?thesis using x m cs by (simp add: match_string_def)
qed

lemma match_string_none: "x \<noteq> [] \<Longrightarrow> hd x \<noteq> CHR 0x22 \<Longrightarrow> match_string (x @ z') = None"
  by (cases x) (auto simp: match_string_def)

lemma match_number_local:
  assumes "match_number (x @ z) = Some m" and "length m \<le> length x" and "hard z'"
  shows "match_number (x @ z') = Some m"
proof -
  from assms(1) have m: "m = takeWhile digit (x @ z)" and ne: "m \<noteq> []"
    and after: "dropWhile digit (x @ z) = [] \<or> \<not> word_char (hd (dropWhile digit (x @ z)))"
    by (auto simp: match_number_def Let_def split: if_splits)
  from hard_head[OF assms(3)] have h: "z' \<noteq> []" "\<not> digit (hd z')" "\<not> word_char (hd z')"
    by auto
  have tw: "takeWhile digit (x @ z') = m"
    using takeWhile_local[of digit x z z'] assms(2) m h by simp
  have dw: "dropWhile digit (x @ z') = drop (length m) x @ z'"
    using tw assms(2) by (simp add: dropWhile_eq_drop)
  have dw0: "dropWhile digit (x @ z) = drop (length m) x @ z"
    using m assms(2) by (simp add: dropWhile_eq_drop)
  have "\<not> word_char (hd (drop (length m) x @ z'))"
  proof (cases "length m < length x")
    case True
    then have "drop (length m) x \<noteq> []" by simp
    with after dw0 show ?thesis by simp
  next
    case False
    with assms(2) h show ?thesis by simp
  qed
  with tw dw ne show ?thesis by (simp add: match_number_def Let_def)
qed

lemma match_word_local:
  assumes "match_word (x @ z) = Some m" and "length m \<le> length x" and "hard z'"
  shows "match_word (x @ z') = Some m"
proof -
  let ?wp = "\<lambda>c. \<not> white_space c \<and> c \<notin> set [CHR ''('', CHR '')'', CHR '','', CHR 0x22]"
  from assms(1) have m: "m = takeWhile ?wp (x @ z)" and ne: "m \<noteq> []"
    by (auto simp: match_word_def Let_def split: if_splits)
  from hard_head[OF assms(3)] have "\<not> ?wp (hd z')" by blast
  then have "takeWhile ?wp (x @ z') = m"
    using takeWhile_local[of ?wp x z z'] assms(2) m by simp
  with ne show ?thesis by (simp add: match_word_def Let_def)
qed

lemma match_number_none_local:
  assumes "match_number (x @ z) = None" and "match_word (x @ z) = Some m"
    and "length m \<le> length x" and "hard z'"
  shows "match_number (x @ z') = None"
proof -
  let ?wp = "\<lambda>c. \<not> white_space c \<and> c \<notin> set [CHR ''('', CHR '')'', CHR '','', CHR 0x22]"
  let ?ds = "takeWhile digit (x @ z)"
  from assms(2) have m: "m = takeWhile ?wp (x @ z)"
    by (auto simp: match_word_def Let_def split: if_splits)
  have dwp: "\<And>c. digit c \<Longrightarrow> ?wp c" by (auto simp: digit_def white_space_def)
  have "length ?ds \<le> length (takeWhile ?wp (x @ z))"
    by (rule takeWhile_length_mono) (rule dwp)
  with m assms(3) have dl: "length ?ds \<le> length x" by simp
  from hard_head[OF assms(4)] have h: "z' \<noteq> []" "\<not> digit (hd z')" "\<not> word_char (hd z')"
    by auto
  have tw: "takeWhile digit (x @ z') = ?ds"
    using takeWhile_local[of digit x z z'] dl h by simp
  show ?thesis
  proof (cases "?ds = []")
    case True
    with tw show ?thesis by (simp add: match_number_def Let_def)
  next
    case False
    have dw: "dropWhile digit (x @ z') = drop (length ?ds) x @ z'"
      using tw dl by (simp add: dropWhile_eq_drop)
    have dw0: "dropWhile digit (x @ z) = drop (length ?ds) x @ z"
      using dl by (simp add: dropWhile_eq_drop)
    from assms(1) False have wc: "dropWhile digit (x @ z) \<noteq> []"
      "word_char (hd (dropWhile digit (x @ z)))"
      by (auto simp: match_number_def Let_def split: if_splits)
    have lt: "length ?ds < length x"
    proof (rule ccontr)
      assume "\<not> length ?ds < length x"
      with dl have eq: "length ?ds = length x" by simp
      with dw0 have z: "dropWhile digit (x @ z) = z" by simp
      with wc have zne: "z \<noteq> []" and wz: "word_char (hd z)" by auto
      have "?wp (hd z)" using wz by (auto simp: word_char_def white_space_def)
      have "?ds = take (length ?ds) (x @ z)" by (rule takeWhile_eq_take)
      also have "\<dots> = take (length x) (x @ z)" by (simp only: eq)
      also have "\<dots> = x" by simp
      finally have dsx: "?ds = x" .
      have allx: "\<forall>c\<in>set x. ?wp c"
      proof
        fix c assume "c \<in> set x"
        then have "c \<in> set ?ds" by (simp only: dsx)
        then have "digit c" by (auto dest: set_takeWhileD)
        then show "?wp c" by (rule dwp)
      qed
      then have "takeWhile ?wp (x @ z) = x @ takeWhile ?wp z" by (simp add: takeWhile_append2)
      moreover from zne \<open>?wp (hd z)\<close> have "takeWhile ?wp z \<noteq> []" by (cases z) auto
      ultimately have "length x < length m" using m by simp
      with assms(3) show False by simp
    qed
    then have "drop (length ?ds) x \<noteq> []" by simp
    with wc dw0 dw have "dropWhile digit (x @ z') \<noteq> []"
      "word_char (hd (dropWhile digit (x @ z')))" by simp_all
    with tw show ?thesis by (simp add: match_number_def Let_def)
  qed
qed

lemma match_head:
  "match_number p = Some m \<Longrightarrow> p \<noteq> [] \<and> digit (hd p)"
  "match_word p = Some m \<Longrightarrow> p \<noteq> [] \<and> hd p \<noteq> CHR 0x22"
  by (cases p; auto simp: match_number_def match_word_def Let_def split: if_splits)+

lemma next_token_local:
  assumes "next_token (x @ z) = Some (tok, n)" and "n \<le> length x" and "hard z'"
  shows "next_token (x @ z') = Some (tok, n)"
proof (cases "match_string (x @ z)")
  case (Some m)
  with assms(1) have "tok = Value (Text m)" "n = length m + 2" by (simp_all add: next_token_def)
  with match_string_local[OF Some, of z'] assms(2) show ?thesis by (simp add: next_token_def)
next
  case None
  note ns = this
  from next_token_length[OF assms(1)] assms(2) have xne: "x \<noteq> []" by auto
  show ?thesis
  proof (cases "match_number (x @ z)")
    case (Some m)
    with ns assms(1) have t: "tok = Value (Number (to_Number m))" "n = length m"
      by (simp_all add: next_token_def)
    from match_head(1)[OF Some] xne have "hd x \<noteq> CHR 0x22" by (auto simp: digit_def)
    with xne have "match_string (x @ z') = None" by (rule match_string_none)
    with match_number_local[OF Some _ assms(3)] assms(2) t show ?thesis
      by (simp add: next_token_def)
  next
    case None
    note nn = this
    show ?thesis
    proof (cases "match_word (x @ z)")
      case (Some m)
      with ns nn assms(1) have t: "tok = Word m" "n = length m" by (simp_all add: next_token_def)
      from match_head(2)[OF Some] xne have "hd x \<noteq> CHR 0x22" by auto
      with xne have "match_string (x @ z') = None" by (rule match_string_none)
      moreover have "match_number (x @ z') = None"
        using match_number_none_local[OF nn Some _ assms(3)] assms(2) t by simp
      moreover have "match_word (x @ z') = Some m"
        using match_word_local[OF Some _ assms(3)] assms(2) t by simp
      ultimately show ?thesis using t by (simp add: next_token_def)
    next
      case None
      with ns nn assms(1) show ?thesis by (simp add: next_token_def)
    qed
  qed
qed

subsection \<open>Induction over a run of the parser\<close>

lemma parser_induct:
  assumes pe: "\<And>program0.
      (\<And>tok n. next_token (skipSpace program0) = Some (tok, n)
         \<Longrightarrow> Q tok (drop n (skipSpace program0)))
      \<Longrightarrow> P program0"
    and pa: "\<And>expr program0.
      (take 1 (skipSpace program0) = ''(''
         \<Longrightarrow> R [] (skipSpace (drop 1 (skipSpace program0))))
      \<Longrightarrow> (\<And>args pr. take 1 (skipSpace program0) = ''(''
         \<Longrightarrow> parseArgs [] (skipSpace (drop 1 (skipSpace program0))) = Inr (args, pr)
         \<Longrightarrow> Q (Apply expr args) (drop 1 pr))
      \<Longrightarrow> Q expr program0"
    and pl: "\<And>args program.
      (take 1 program \<noteq> '')'' \<Longrightarrow> P program)
      \<Longrightarrow> (\<And>arg rest. take 1 program \<noteq> '')''
         \<Longrightarrow> parseExpression program = Inr (arg, rest)
         \<Longrightarrow> take 1 (skipSpace rest) = '',''
         \<Longrightarrow> R (args @ [arg]) (skipSpace (drop 1 (skipSpace rest))))
      \<Longrightarrow> (\<And>arg rest. take 1 program \<noteq> '')''
         \<Longrightarrow> parseExpression program = Inr (arg, rest)
         \<Longrightarrow> take 1 (skipSpace rest) = '')''
         \<Longrightarrow> R (args @ [arg]) (skipSpace rest))
      \<Longrightarrow> R args program"
  shows "P p" and "Q e q" and "R a r"
proof (induction p and e q and a r rule: parseExpression_parseApply_parseArgs.induct)
  case (1 program0)
  show ?case
  proof (rule pe)
    fix tok n
    assume nt: "next_token (skipSpace program0) = Some (tok, n)"
    show "Q tok (drop n (skipSpace program0))"
    proof (cases "match_string (skipSpace program0)")
      case (Some m)
      with nt have "tok = Value (Text m)" "n = length m + 2" by (simp_all add: next_token_def)
      with 1(3)[OF refl Some] show ?thesis by simp
    next
      case None
      note ns = this
      show ?thesis
      proof (cases "match_number (skipSpace program0)")
        case (Some m)
        with nt ns have "tok = Value (Number (to_Number m))" "n = length m"
          by (simp_all add: next_token_def)
        with 1(2)[OF refl ns Some] show ?thesis by simp
      next
        case None
        note nn = this
        show ?thesis
        proof (cases "match_word (skipSpace program0)")
          case (Some m)
          with nt ns nn have "tok = Word m" "n = length m" by (simp_all add: next_token_def)
          with 1(1)[OF refl ns nn Some] show ?thesis by simp
        next
          case None
          with nt ns nn show ?thesis by (simp add: next_token_def)
        qed
      qed
    qed
  qed
next
  case (2 expr program0)
  show ?case
  proof (rule pa)
    assume "take 1 (skipSpace program0) = ''(''"
    then show "R [] (skipSpace (drop 1 (skipSpace program0)))" using 2(1)[OF refl] by simp
  next
    fix args pr
    assume "take 1 (skipSpace program0) = ''(''"
      and "parseArgs [] (skipSpace (drop 1 (skipSpace program0))) = Inr (args, pr)"
    then show "Q (Apply expr args) (drop 1 pr)" using 2(2)[OF refl _ _ refl] by simp
  qed
next
  case (3 args program)
  show ?case
  proof (rule pl)
    assume "take 1 program \<noteq> '')''"
    then show "P program" by (rule 3(1))
  next
    fix arg rest
    assume "take 1 program \<noteq> '')''" "parseExpression program = Inr (arg, rest)"
      "take 1 (skipSpace rest) = '',''"
    then show "R (args @ [arg]) (skipSpace (drop 1 (skipSpace rest)))"
      using 3(2)[OF _ _ refl refl] by simp
  next
    fix arg rest
    assume "take 1 program \<noteq> '')''" "parseExpression program = Inr (arg, rest)"
      "take 1 (skipSpace rest) = '')''"
    then show "R (args @ [arg]) (skipSpace rest)"
      using 3(3)[OF _ _ refl refl] by simp
  qed
qed

lemma parseApply_unfold:
  "parseApply expr program0 =
     (if take 1 (skipSpace program0) \<noteq> ''('' then Inr (expr, skipSpace program0)
      else case parseArgs [] (skipSpace (drop 1 (skipSpace program0))) of
             Inl e \<Rightarrow> Inl e
           | Inr (args, pr) \<Rightarrow> parseApply (Apply expr args) (drop 1 pr))"
  by (simp add: parseApply.simps[of expr program0])

lemma parseArgs_unfold:
  "parseArgs args program =
     (if take 1 program = '')'' then Inr (args, program)
      else case parseExpression program of
             Inl e \<Rightarrow> Inl e
           | Inr (arg, rest) \<Rightarrow>
               if take 1 (skipSpace rest) = '','' then
                 parseArgs (args @ [arg]) (skipSpace (drop 1 (skipSpace rest)))
               else if take 1 (skipSpace rest) \<noteq> '')'' then Inl SyntaxError
               else parseArgs (args @ [arg]) (skipSpace rest))"
  by (simp add: parseArgs.simps[of args program] Let_def split: sum.splits prod.splits)

subsection \<open>The rest is a suffix of the input\<close>

lemma parse_suffix:
  "\<forall>e r. parseExpression p = Inr (e, r) \<longrightarrow> (\<exists>u. p = u @ r \<and> u \<noteq> []) \<and> skipSpace r = r"
  "\<forall>e r. parseApply ex q = Inr (e, r) \<longrightarrow> (\<exists>u. q = u @ r) \<and> skipSpace r = r"
  "\<forall>as r. parseArgs a s = Inr (as, r) \<longrightarrow> (\<exists>u. s = u @ r) \<and> take 1 r = '')''"
proof (induction p and ex q and a s rule: parser_induct)
  case (1 program0)
  show ?case
  proof (intro allI impI)
    fix e r assume res: "parseExpression program0 = Inr (e, r)"
    let ?p = "skipSpace program0"
    from res obtain tok n where nt: "next_token ?p = Some (tok, n)"
      and pa: "parseApply tok (drop n ?p) = Inr (e, r)"
      by (auto simp: parseExpression_token split: option.splits)
    from 1[OF nt] pa obtain u where u: "drop n ?p = u @ r" and r: "skipSpace r = r" by blast
    obtain w where w: "program0 = w @ ?p" using skipSpace_suffix by blast
    have "?p = take n ?p @ drop n ?p" by simp
    with u have "?p = take n ?p @ u @ r" by simp
    with w have "program0 = (w @ take n ?p @ u) @ r" by simp
    moreover from next_token_length[OF nt] have "take n ?p \<noteq> []" by auto
    ultimately show "(\<exists>u. program0 = u @ r \<and> u \<noteq> []) \<and> skipSpace r = r"
      using r by blast
  qed
next
  case (2 expr program0)
  show ?case
  proof (intro allI impI)
    fix e r assume res: "parseApply expr program0 = Inr (e, r)"
    let ?p = "skipSpace program0"
    obtain w where w: "program0 = w @ ?p" using skipSpace_suffix by blast
    show "(\<exists>u. program0 = u @ r) \<and> skipSpace r = r"
    proof (cases "take 1 ?p = ''(''")
      case False
      with res have "r = ?p" by (simp add: parseApply_unfold[of expr program0])
      with w show ?thesis by (auto simp: skipSpace_idem)
    next
      case True
      with res obtain args pr where
        a: "parseArgs [] (skipSpace (drop 1 ?p)) = Inr (args, pr)"
        and b: "parseApply (Apply expr args) (drop 1 pr) = Inr (e, r)"
        by (auto simp: parseApply_unfold[of expr program0] split: sum.splits)
      from 2(1)[OF True] a obtain u2 where u2: "skipSpace (drop 1 ?p) = u2 @ pr" by blast
      from 2(2)[OF True a] b obtain u3 where u3: "drop 1 pr = u3 @ r" and r: "skipSpace r = r"
        by blast
      obtain w2 where w2: "drop 1 ?p = w2 @ skipSpace (drop 1 ?p)" using skipSpace_suffix by blast
      have "?p = take 1 ?p @ drop 1 ?p" by simp
      moreover have "pr = take 1 pr @ drop 1 pr" by simp
      ultimately have "program0 = (w @ take 1 ?p @ w2 @ u2 @ take 1 pr @ u3) @ r"
        using w w2 u2 u3 by (metis append.assoc)
      with r show ?thesis by blast
    qed
  qed
next
  case (3 args program)
  show ?case
  proof (intro allI impI)
    fix as r assume res: "parseArgs args program = Inr (as, r)"
    show "(\<exists>u. program = u @ r) \<and> take 1 r = '')''"
    proof (cases "take 1 program = '')''")
      case True
      with res show ?thesis by (simp add: parseArgs_unfold[of args program])
    next
      case False
      with res obtain arg rest where pe: "parseExpression program = Inr (arg, rest)"
        by (auto simp: parseArgs_unfold[of args program] split: sum.splits)
      from 3(1)[OF False] pe obtain u where u: "program = u @ rest" by blast
      obtain w where w: "rest = w @ skipSpace rest" using skipSpace_suffix by blast
      show ?thesis
      proof (cases "take 1 (skipSpace rest) = '',''")
        case True
        with res False pe
        have "parseArgs (args @ [arg]) (skipSpace (drop 1 (skipSpace rest))) = Inr (as, r)"
          by (simp add: parseArgs_unfold[of args program])
        with 3(2)[OF False pe True] obtain u4 where
          u4: "skipSpace (drop 1 (skipSpace rest)) = u4 @ r" and r: "take 1 r = '')''" by blast
        obtain w3 where w3: "drop 1 (skipSpace rest) = w3 @ skipSpace (drop 1 (skipSpace rest))"
          using skipSpace_suffix by blast
        have "skipSpace rest = take 1 (skipSpace rest) @ drop 1 (skipSpace rest)" by simp
        then have "program = (u @ w @ take 1 (skipSpace rest) @ w3 @ u4) @ r"
          using u w w3 u4 by (metis append.assoc)
        with r show ?thesis by blast
      next
        case nc: False
        show ?thesis
        proof (cases "take 1 (skipSpace rest) = '')''")
          case True
          with res False pe nc
          have "parseArgs (args @ [arg]) (skipSpace rest) = Inr (as, r)"
            by (simp add: parseArgs_unfold[of args program])
          with 3(3)[OF False pe True] obtain u5 where
            u5: "skipSpace rest = u5 @ r" and r: "take 1 r = '')''" by blast
          have "program = (u @ w @ u5) @ r" using u w u5 by (metis append.assoc)
          with r show ?thesis by blast
        next
          case False
          with res \<open>take 1 program \<noteq> '')''\<close> pe nc show ?thesis
            by (simp add: parseArgs_unfold[of args program])
        qed
      qed
    qed
  qed
qed

subsection \<open>What follows the parsed text can be replaced\<close>

lemma take1_append: "u \<noteq> [] \<Longrightarrow> take 1 (u @ x) = take 1 u"
  by (cases u) auto

lemma parseArgs_comma:
  "take 1 p \<noteq> '')'' \<Longrightarrow> parseExpression p = Inr (arg, rest)
     \<Longrightarrow> take 1 (skipSpace rest) = '',''
     \<Longrightarrow> parseArgs args p = parseArgs (args @ [arg]) (skipSpace (drop 1 (skipSpace rest)))"
  by (simp add: parseArgs_unfold[of args p])

lemma parseArgs_close:
  "take 1 p \<noteq> '')'' \<Longrightarrow> parseExpression p = Inr (arg, rest)
     \<Longrightarrow> take 1 (skipSpace rest) = '')''
     \<Longrightarrow> parseArgs args p = Inr (args @ [arg], skipSpace rest)"
  by (simp add: parseArgs_unfold[of args p] parseArgs_unfold[of "args @ [arg]" "skipSpace rest"])

lemma parseApply_open:
  "take 1 (skipSpace p) = ''('' \<Longrightarrow> parseArgs [] (skipSpace (drop 1 (skipSpace p))) = Inr (args, pr)
     \<Longrightarrow> parseApply ex p = parseApply (Apply ex args) (drop 1 pr)"
  by (simp add: parseApply_unfold[of ex p])

lemma parse_continue:
  "\<forall>a z e. p = a @ z \<longrightarrow> z \<noteq> [] \<longrightarrow> parseExpression p = Inr (e, z) \<longrightarrow>
     (\<forall>z'. hard z' \<longrightarrow> parseExpression (a @ z') = parseApply e z')"
  "\<forall>a z e. q = a @ z \<longrightarrow> z \<noteq> [] \<longrightarrow> parseApply ex q = Inr (e, z) \<longrightarrow>
     (\<forall>z'. hard z' \<longrightarrow> parseApply ex (a @ z') = parseApply e z')"
  "\<forall>a r as'. s = a @ r \<longrightarrow> parseArgs as s = Inr (as', r) \<longrightarrow>
     (\<forall>r'. take 1 r' = '')'' \<longrightarrow> parseArgs as (a @ r') = Inr (as', r'))"
proof (induction p and ex q and as s rule: parser_induct)
  case (1 program0)
  show ?case
  proof (intro allI impI)
    fix a z e z'
    assume p0: "program0 = a @ z" and zne: "z \<noteq> []"
      and res: "parseExpression program0 = Inr (e, z)" and hz: "hard z'"
    let ?p = "skipSpace program0"
    from res obtain tok n where nt: "next_token ?p = Some (tok, n)"
      and pa: "parseApply tok (drop n ?p) = Inr (e, z)"
      by (auto simp: parseExpression_token split: option.splits)
    from parse_suffix(2) pa obtain u where u: "drop n ?p = u @ z" by blast
    from next_token_length[OF nt] have n: "0 < n" "n \<le> length ?p" by auto
    then have pne: "?p \<noteq> []" by auto
    from skipSpace_split[OF refl pne] obtain w where w: "program0 = w @ ?p" "separators w"
      by blast
    define x where "x = take n ?p @ u"
    have px: "?p = x @ z" using u unfolding x_def by (metis append.assoc append_take_drop_id)
    have xne: "x \<noteq> []" using n unfolding x_def by auto
    have lx: "n \<le> length x" using n unfolding x_def by simp
    have dx: "\<And>y. drop n (x @ y) = u @ y" using n unfolding x_def by simp
    have a: "a = w @ x" using p0 w(1) px by (metis append.assoc append_same_eq)
    have fixed: "skipSpace (x @ z) = x @ z" using skipSpace_idem[of program0] px by simp
    have sk: "skipSpace (a @ z') = x @ z'"
      using skipSpace_separators[OF w(2), of "x @ z'"] skipSpace_same_head[OF fixed xne, of z'] a
      by simp
    have nt': "next_token (x @ z') = Some (tok, n)"
      using next_token_local[of x z tok n z'] nt px lx hz by simp
    have "parseExpression (a @ z') =
        (case next_token (skipSpace (a @ z')) of
           None \<Rightarrow> Inl SyntaxError
         | Some (tok, n) \<Rightarrow> parseApply tok (drop n (skipSpace (a @ z'))))"
      by (rule parseExpression_token)
    also have "\<dots> = parseApply tok (drop n (x @ z'))"
      by (simp only: sk nt' option.case prod.case)
    also have "\<dots> = parseApply tok (u @ z')"
      by (simp only: dx)
    also have "\<dots> = parseApply e z'"
      by (rule 1[OF nt, rule_format, OF u zne pa hz])
    finally show "parseExpression (a @ z') = parseApply e z'" .
  qed
next
  case (2 expr program0)
  show ?case
  proof (intro allI impI)
    fix a z e z'
    assume p0: "program0 = a @ z" and zne: "z \<noteq> []"
      and res: "parseApply expr program0 = Inr (e, z)" and hz: "hard z'"
    let ?p = "skipSpace program0"
    show "parseApply expr (a @ z') = parseApply e z'"
    proof (cases "take 1 ?p = ''(''")
      case False
      with res have e: "e = expr" and pz: "?p = z"
        by (simp_all add: parseApply_unfold[of expr program0])
      from skipSpace_split[OF pz zne] obtain w where w: "program0 = w @ z" "separators w"
        by blast
      with p0 have "a = w" by (metis append_same_eq)
      with w(2) have "separators a" by simp
      then have "skipSpace (a @ z') = skipSpace z'" by (rule skipSpace_separators)
      then show ?thesis using parseApply_skip[of "a @ z'" z' expr] e by simp
    next
      case True
      with res obtain args pr where
        pl: "parseArgs [] (skipSpace (drop 1 ?p)) = Inr (args, pr)"
        and pb: "parseApply (Apply expr args) (drop 1 pr) = Inr (e, z)"
        by (auto simp: parseApply_unfold[of expr program0] split: sum.splits)
      from parse_suffix(2) pb obtain u3 where u3: "drop 1 pr = u3 @ z" by blast
      from parse_suffix(3) pl obtain u2 where u2: "skipSpace (drop 1 ?p) = u2 @ pr"
        and cl: "take 1 pr = '')''" by blast
      have pr: "pr = CHR '')'' # u3 @ z"
        using cl u3 append_take_drop_id[of 1 pr] by simp
      have p: "?p = CHR ''('' # drop 1 ?p"
        using True append_take_drop_id[of 1 ?p] by simp
      then have pne: "?p \<noteq> []" by auto
      from skipSpace_split[OF refl pne] obtain w where w: "program0 = w @ ?p" "separators w"
        by blast
      have "skipSpace (drop 1 ?p) \<noteq> []" using u2 pr by simp
      from skipSpace_split[OF refl this] obtain w2 where
        w2: "drop 1 ?p = w2 @ skipSpace (drop 1 ?p)" "separators w2" by blast
      have whole: "program0 = (w @ CHR ''('' # w2 @ u2 @ CHR '')'' # u3) @ z"
        using w(1) p w2(1) u2 pr by (metis append.assoc append_Cons)
      with p0 have a: "a = w @ CHR ''('' # w2 @ u2 @ CHR '')'' # u3"
        by (metis append_same_eq)
      let ?Y = "u2 @ CHR '')'' # u3 @ z'"
      have fixed: "skipSpace ((u2 @ '')'') @ u3 @ z) = (u2 @ '')'') @ u3 @ z"
        using skipSpace_idem[of "drop 1 ?p"] u2 pr by simp
      have skY: "skipSpace ?Y = ?Y"
        using skipSpace_same_head[OF fixed, of "u3 @ z'"] by simp
      have sk1: "skipSpace (a @ z') = CHR ''('' # w2 @ ?Y"
        using skipSpace_separators[OF w(2), of "CHR ''('' # w2 @ ?Y"] a
        by (simp add: skipSpace_other white_space_def)
      have sk2: "skipSpace (w2 @ ?Y) = ?Y"
        using skipSpace_separators[OF w2(2), of ?Y] skY by simp
      have args: "parseArgs [] ?Y = Inr (args, CHR '')'' # u3 @ z')"
        using 2(1)[OF True, rule_format, OF u2 pl, of "CHR '')'' # u3 @ z'"] by simp
      have "parseApply expr (a @ z') = parseApply (Apply expr args) (drop 1 (CHR '')'' # u3 @ z'))"
        by (rule parseApply_open) (simp_all add: sk1 sk2 args)
      then have "parseApply expr (a @ z') = parseApply (Apply expr args) (u3 @ z')" by simp
      also have "\<dots> = parseApply e z'"
        by (rule 2(2)[OF True pl, rule_format, OF u3 zne pb hz])
      finally show ?thesis .
    qed
  qed
next
  case (3 args program)
  show ?case
  proof (intro allI impI)
    fix a r as' r'
    assume p0: "program = a @ r" and res: "parseArgs args program = Inr (as', r)"
      and cr: "take 1 r' = '')''"
    then have hr: "hard r'" by (simp add: hard_def)
    show "parseArgs args (a @ r') = Inr (as', r')"
    proof (cases "take 1 program = '')''")
      case True
      with res have "as' = args" "r = program" by (simp_all add: parseArgs_unfold[of args program])
      with p0 have "a = []" by (metis append_self_conv2)
      with cr \<open>as' = args\<close> show ?thesis by (simp add: parseArgs_unfold[of args r'])
    next
      case False
      with res obtain arg rest where pe: "parseExpression program = Inr (arg, rest)"
        by (auto simp: parseArgs_unfold[of args program] split: sum.splits)
      from parse_suffix(1) pe obtain u where u: "program = u @ rest" "u \<noteq> []"
        and fr: "skipSpace rest = rest" by blast
      have t1: "\<And>y. take 1 (u @ y) = take 1 u" using u(2) by (rule take1_append)
      have "take 1 (u @ rest) \<noteq> '')''" using False u(1) by metis
      then have "take 1 u \<noteq> '')''" using t1[of rest] by metis
      then have nclose: "\<And>y. take 1 (u @ y) \<noteq> '')''" using t1 by metis
      show ?thesis
      proof (cases "take 1 (skipSpace rest) = '',''")
        case True
        with res False pe
        have pl: "parseArgs (args @ [arg]) (skipSpace (drop 1 (skipSpace rest))) = Inr (as', r)"
          by (simp add: parseArgs_unfold[of args program])
        from parse_suffix(3) pl obtain u4 where
          u4: "skipSpace (drop 1 (skipSpace rest)) = u4 @ r" and cl: "take 1 r = '')''" by blast
        from cl have rne: "r \<noteq> []" by auto
        have rest: "rest = CHR '','' # drop 1 rest"
          using True fr append_take_drop_id[of 1 rest] by simp
        have "skipSpace (drop 1 rest) \<noteq> []" using u4 rne fr by simp
        from skipSpace_split[OF refl this] obtain w3 where
          w3: "drop 1 rest = w3 @ skipSpace (drop 1 rest)" "separators w3" by blast
        have whole: "program = (u @ CHR '','' # w3 @ u4) @ r"
          using u(1) rest w3(1) u4 fr by (metis append.assoc append_Cons)
        with p0 have a: "a = u @ CHR '','' # w3 @ u4" by (metis append_same_eq)
        let ?Z = "CHR '','' # w3 @ u4 @ r'"
        have hZ: "hard ?Z" by (simp add: hard_def)
        have restne: "rest \<noteq> []" using rest by auto
        have "parseExpression (u @ ?Z) = parseApply arg ?Z"
          by (rule 3(1)[OF False, rule_format, OF u(1) restne pe hZ])
        also have "\<dots> = Inr (arg, ?Z)" by (rule parseApply_stop) simp
        finally have pe': "parseExpression (a @ r') = Inr (arg, ?Z)" using a by simp
        have skZ: "skipSpace ?Z = ?Z" using hZ by (rule hard_skipSpace)
        have fixed4: "skipSpace (u4 @ r) = u4 @ r"
          using skipSpace_idem[of "drop 1 rest"] u4 fr by simp
        have sk4: "skipSpace (u4 @ r') = u4 @ r'"
        proof (cases "u4 = []")
          case True
          with hr show ?thesis by (simp add: hard_skipSpace)
        next
          case False
          with fixed4 show ?thesis by (rule skipSpace_same_head)
        qed
        have sk3: "skipSpace (w3 @ u4 @ r') = u4 @ r'"
          using skipSpace_separators[OF w3(2), of "u4 @ r'"] sk4 by simp
        have nc': "take 1 (a @ r') \<noteq> '')''"
          using nclose[of "CHR '','' # w3 @ u4 @ r'"] a by simp
        have "parseArgs args (a @ r') = parseArgs (args @ [arg]) (skipSpace (drop 1 (skipSpace ?Z)))"
          by (rule parseArgs_comma[OF nc' pe']) (simp add: skZ)
        then have "parseArgs args (a @ r') = parseArgs (args @ [arg]) (u4 @ r')"
          by (simp add: skZ sk3)
        also have "\<dots> = Inr (as', r')"
          by (rule 3(2)[OF False pe True, rule_format, OF u4 pl cr])
        finally show ?thesis .
      next
        case nc: False
        show ?thesis
        proof (cases "take 1 (skipSpace rest) = '')''")
          case True
          with res False pe nc
          have "parseArgs (args @ [arg]) (skipSpace rest) = Inr (as', r)"
            by (simp add: parseArgs_unfold[of args program])
          with True fr have "as' = args @ [arg]" "r = rest"
            by (simp_all add: parseArgs_unfold[of "args @ [arg]" rest])
          with p0 u have a: "a = u" by (metis append_same_eq)
          have restne: "rest \<noteq> []" using True fr by auto
          have "parseExpression (u @ r') = parseApply arg r'"
            by (rule 3(1)[OF False, rule_format, OF u(1) restne pe hr])
          also have "\<dots> = Inr (arg, r')" by (rule parseApply_stop) (use cr in simp)
          finally have pe': "parseExpression (a @ r') = Inr (arg, r')" using a by simp
          have skr: "skipSpace r' = r'" using hr by (rule hard_skipSpace)
          have nc': "take 1 (a @ r') \<noteq> '')''" using nclose[of r'] a by simp
          have "parseArgs args (a @ r') = Inr (args @ [arg], skipSpace r')"
            by (rule parseArgs_close[OF nc' pe']) (use cr in \<open>simp add: skr\<close>)
          then show ?thesis using \<open>as' = args @ [arg]\<close> skr by simp
        next
          case False
          with res \<open>take 1 program \<noteq> '')''\<close> pe nc show ?thesis
            by (simp add: parseArgs_unfold[of args program])
        qed
      qed
    qed
  qed
qed

lemma next_token_close: "take 1 q = '')'' \<Longrightarrow> next_token q = None"
  by (cases q) (auto simp: next_token_def match_string_def match_number_def match_word_def
      digit_def)

lemma parseExpression_start:
  assumes "parseExpression X = Inr r"
  shows "take 1 X \<noteq> '')'' \<and> take 1 (skipSpace X) \<noteq> '')''"
proof -
  from assms obtain tok n where nt: "next_token (skipSpace X) = Some (tok, n)"
    by (auto simp: parseExpression_token split: option.splits)
  have a: "take 1 (skipSpace X) \<noteq> '')''"
  proof
    assume "take 1 (skipSpace X) = '')''"
    then have "next_token (skipSpace X) = None" by (rule next_token_close)
    with nt show False by simp
  qed
  have "take 1 X \<noteq> '')''"
  proof
    assume c: "take 1 X = '')''"
    then have "hard X" by (simp add: hard_def)
    then have "skipSpace X = X" by (rule hard_skipSpace)
    with a c show False by simp
  qed
  with a show ?thesis by simp
qed

lemma expression_text_first:
  assumes "expression_text A a" and "take 1 Z = '','' \<or> take 1 Z = '')''"
  shows "parseExpression (A @ Z) = Inr (a, Z)"
    and "parseExpression (skipSpace (A @ Z)) = Inr (a, Z)"
    and "take 1 (A @ Z) \<noteq> '')''"
    and "take 1 (skipSpace (A @ Z)) \<noteq> '')''"
proof -
  from assms(2) have hz: "hard Z" by (auto simp: hard_def)
  from assms(1) have pe: "parseExpression (A @ '')'') = Inr (a, '')'')"
    by (simp add: expression_text_def)
  have "parseExpression (A @ Z) = parseApply a Z"
    by (rule parse_continue(1)[rule_format, OF refl _ pe hz]) simp
  also have "\<dots> = Inr (a, Z)" using assms(2) by (intro parseApply_stop) auto
  finally show 1: "parseExpression (A @ Z) = Inr (a, Z)" .
  then show "parseExpression (skipSpace (A @ Z)) = Inr (a, Z)"
    using parseExpression_skip[of "skipSpace (A @ Z)" "A @ Z"] by (simp add: skipSpace_idem)
  from parseExpression_start[OF 1]
  show "take 1 (A @ Z) \<noteq> '')''" and "take 1 (skipSpace (A @ Z)) \<noteq> '')''" by simp_all
qed

lemma hard_fixed: "take 1 Z = '','' \<or> take 1 Z = '')'' \<Longrightarrow> skipSpace Z = Z"
  by (rule hard_skipSpace) (auto simp: hard_def)

lemma argument_then_comma:
  assumes "expression_text A a"
  shows "parseArgs args (A @ '','' @ R) = parseArgs (args @ [a]) (skipSpace R)"
    and "parseArgs args (skipSpace (A @ '','' @ R)) = parseArgs (args @ [a]) (skipSpace R)"
proof -
  have z: "take 1 ('','' @ R) = '','' \<or> take 1 ('','' @ R) = '')''" by simp
  note f = expression_text_first[OF assms z]
  have sk: "skipSpace (CHR '','' # R) = CHR '','' # R" using hard_fixed[OF z] by simp
  have "parseArgs args (A @ '','' @ R)
      = parseArgs (args @ [a]) (skipSpace (drop 1 (skipSpace ('','' @ R))))"
    by (rule parseArgs_comma[OF f(3) f(1)]) (simp add: sk)
  then show "parseArgs args (A @ '','' @ R) = parseArgs (args @ [a]) (skipSpace R)"
    by (simp add: sk)
  have "parseArgs args (skipSpace (A @ '','' @ R))
      = parseArgs (args @ [a]) (skipSpace (drop 1 (skipSpace ('','' @ R))))"
    by (rule parseArgs_comma[OF f(4) f(2)]) (simp add: sk)
  then show "parseArgs args (skipSpace (A @ '','' @ R)) = parseArgs (args @ [a]) (skipSpace R)"
    by (simp add: sk)
qed

lemma argument_then_close:
  assumes "expression_text A a" and "take 1 T = '')''"
  shows "parseArgs args (A @ T) = Inr (args @ [a], T)"
    and "parseArgs args (skipSpace (A @ T)) = Inr (args @ [a], T)"
proof -
  have z: "take 1 T = '','' \<or> take 1 T = '')''" using assms(2) by simp
  note f = expression_text_first[OF assms(1) z]
  have sk: "skipSpace T = T" using z by (rule hard_fixed)
  have "parseArgs args (A @ T) = Inr (args @ [a], skipSpace T)"
    by (rule parseArgs_close[OF f(3) f(1)]) (use assms(2) in \<open>simp add: sk\<close>)
  then show "parseArgs args (A @ T) = Inr (args @ [a], T)" by (simp add: sk)
  have "parseArgs args (skipSpace (A @ T)) = Inr (args @ [a], skipSpace T)"
    by (rule parseArgs_close[OF f(4) f(2)]) (use assms(2) in \<open>simp add: sk\<close>)
  then show "parseArgs args (skipSpace (A @ T)) = Inr (args @ [a], T)" by (simp add: sk)
qed

lemma parseArgs_closed: "take 1 T = '')'' \<Longrightarrow> parseArgs args T = Inr (args, T)"
  by (simp add: parseArgs_unfold[of args T])

lemma argument_list:
  assumes "list_all2 expression_text As as" and "As \<noteq> []" and "take 1 T = '')''"
  shows "parseArgs args (skipSpace (commas As @ T)) = Inr (args @ as, T)
       \<and> parseArgs args (skipSpace (commas As @ '','' @ T)) = Inr (args @ as, T)"
  using assms
proof (induction As arbitrary: as args)
  case Nil
  then show ?case by simp
next
  case (Cons A Bs)
  from Cons.prems(1) obtain a bs where as: "as = a # bs" and A: "expression_text A a"
    and Bs: "list_all2 expression_text Bs bs"
    by (auto simp: list_all2_Cons1)
  show ?case
  proof (cases Bs)
    case Nil
    with Bs have bs: "bs = []" by simp
    have skT: "skipSpace T = T" using Cons.prems(3) by (intro hard_fixed) simp
    have "parseArgs args (skipSpace (A @ T)) = Inr (args @ [a], T)"
      by (rule argument_then_close(2)[OF A Cons.prems(3)])
    moreover have "parseArgs args (skipSpace (A @ '','' @ T)) = Inr (args @ [a], T)"
      using argument_then_comma(2)[OF A, of args T] parseArgs_closed[OF Cons.prems(3)]
      by (simp add: skT)
    ultimately show ?thesis using Nil as bs by simp
  next
    case (Cons B Cs)
    then have ne: "Bs \<noteq> []" by simp
    from Cons.IH[OF Bs ne Cons.prems(3), of "args @ [a]"]
    have ih: "parseArgs (args @ [a]) (skipSpace (commas Bs @ T)) = Inr (args @ as, T)"
      "parseArgs (args @ [a]) (skipSpace (commas Bs @ '','' @ T)) = Inr (args @ as, T)"
      using as by simp_all
    have c: "\<And>R. commas (A # Bs) @ R = A @ '','' @ (commas Bs @ R)"
      using Cons by simp
    show ?thesis
      unfolding c using argument_then_comma(2)[OF A] ih by simp
  qed
qed

text \<open>
  C10: one comma after the last argument is accepted. For the text of an expression \<open>e\<close>
  and the texts of one or more argument expressions, the program made of the first text,
  an opening parenthesis, the argument texts joined by commas, one more comma and the
  closing parenthesis parses to the application of \<open>e\<close> to the arguments, as the program
  without that comma does.
\<close>

theorem trailing_comma:
  assumes "expression_text E e" and "list_all2 expression_text As as" and "As \<noteq> []"
  shows "parse (E @ ''('' @ commas As @ '',)'') = Inr (Apply e as)
       \<and> parse (E @ ''('' @ commas As @ '')'') = Inr (Apply e as)"
proof -
  have call: "parse (E @ ''('' @ Y) = Inr (Apply e as)"
    if Y: "parseArgs [] (skipSpace Y) = Inr (as, '')'')" for Y
  proof -
    from assms(1) have pe: "parseExpression (E @ '')'') = Inr (e, '')'')"
      by (simp add: expression_text_def)
    have h: "hard (''('' @ Y)" by (simp add: hard_def)
    have hs: "skipSpace (CHR ''('' # Y) = CHR ''('' # Y" using hard_skipSpace[OF h] by simp
    have "parseExpression (E @ ''('' @ Y) = parseApply e (''('' @ Y)"
      by (rule parse_continue(1)[rule_format, OF refl _ pe h]) simp
    also have "\<dots> = parseApply (Apply e as) (drop 1 '')'')"
      by (rule parseApply_open) (simp_all add: hs Y)
    also have "\<dots> = Inr (Apply e as, [])"
      by (simp add: parseApply_unfold[of _ "[]"] skipSpace_Nil)
    finally show ?thesis by (simp add: parse_def skipSpace_Nil)
  qed
  have t: "take 1 '')'' = '')''" by simp
  from argument_list[OF assms(2,3) t, of "[]"]
  have "parseArgs [] (skipSpace (commas As @ '')'')) = Inr (as, '')'')"
    and "parseArgs [] (skipSpace (commas As @ '',)'')) = Inr (as, '')'')"
    by simp_all
  then show ?thesis using call by simp
qed

lemma expression_text_examples:
  "expression_text ''+'' (Word ''+'')"
  "expression_text ''a'' (Word ''a'')"
  "expression_text '' 10'' (Value (Number 10))"
  unfolding expression_text_def by code_simp+

theorem trailing_comma_witness:
  "expression_text ''+'' (Word ''+'')
 \<and> list_all2 expression_text [''a'', '' 10''] [Word ''a'', Value (Number 10)]
 \<and> parse ''+(a, 10,)'' = Inr (Apply (Word ''+'') [Word ''a'', Value (Number 10)])
 \<and> parse ''+(a, 10)'' = Inr (Apply (Word ''+'') [Word ''a'', Value (Number 10)])"
proof -
  have l: "list_all2 expression_text [''a'', '' 10''] [Word ''a'', Value (Number 10)]"
    by (simp add: expression_text_examples)
  from trailing_comma[OF expression_text_examples(1) l]
  show ?thesis using l expression_text_examples(1) by simp
qed

section \<open>Properties of the evaluator\<close>

subsection \<open>More steps never change a result\<close>

lemma extendsD: "extends ev ev' \<Longrightarrow> ev e env s \<noteq> Inl OutOfFuel \<Longrightarrow> ev' e env s = ev e env s"
  by (simp add: extends_def)

lemma map_evaluate_extends:
  "extends ev ev' \<Longrightarrow> map_evaluate ev args env s \<noteq> Inl OutOfFuel
     \<Longrightarrow> map_evaluate ev' args env s = map_evaluate ev args env s"
proof (induction args arbitrary: s)
  case Nil
  then show ?case by simp
next
  case (Cons arg args)
  from Cons.prems have ne: "ev arg env s \<noteq> Inl OutOfFuel" by (auto split: sum.splits)
  with Cons.prems(1) have eq: "ev' arg env s = ev arg env s" by (rule extendsD)
  show ?case
  proof (cases "ev arg env s")
    case (Inl e)
    with eq show ?thesis by simp
  next
    case (Inr p)
    obtain v s1 where p: "p = (v, s1)" by (cases p)
    from Cons.prems(2) Inr p have "map_evaluate ev args env s1 \<noteq> Inl OutOfFuel"
      by (auto split: sum.splits)
    with Cons.IH[OF Cons.prems(1)] have "map_evaluate ev' args env s1 = map_evaluate ev args env s1"
      by simp
    with eq Inr p show ?thesis by simp
  qed
qed

lemma forEach_do_extends:
  "extends ev ev' \<Longrightarrow> forEach_do ev args env v s \<noteq> Inl OutOfFuel
     \<Longrightarrow> forEach_do ev' args env v s = forEach_do ev args env v s"
proof (induction args arbitrary: v s)
  case Nil
  then show ?case by simp
next
  case (Cons arg args)
  from Cons.prems have ne: "ev arg env s \<noteq> Inl OutOfFuel" by (auto split: sum.splits)
  with Cons.prems(1) have eq: "ev' arg env s = ev arg env s" by (rule extendsD)
  show ?case
  proof (cases "ev arg env s")
    case (Inl e)
    with eq show ?thesis by simp
  next
    case (Inr p)
    obtain v1 s1 where p: "p = (v1, s1)" by (cases p)
    from Cons.prems(2) Inr p have "forEach_do ev args env v1 s1 \<noteq> Inl OutOfFuel" by simp
    with Cons.IH[OF Cons.prems(1)] eq Inr p show ?thesis by simp
  qed
qed

lemma while_loop_extends:
  "extends ev ev' \<Longrightarrow> k \<le> k' \<Longrightarrow> while_loop ev k c b env s \<noteq> Inl OutOfFuel
     \<Longrightarrow> while_loop ev' k' c b env s = while_loop ev k c b env s"
proof (induction k arbitrary: k' s)
  case 0
  then show ?case by simp
next
  case (Suc k)
  from Suc.prems(2) obtain j where k': "k' = Suc j" and kj: "k \<le> j" by (cases k') auto
  from Suc.prems(3) have ne: "ev c env s \<noteq> Inl OutOfFuel" by (auto split: sum.splits)
  with Suc.prems(1) have eq: "ev' c env s = ev c env s" by (rule extendsD)
  show ?case
  proof (cases "ev c env s")
    case (Inl e)
    with eq k' show ?thesis by simp
  next
    case (Inr p)
    obtain w s1 where p: "p = (w, s1)" by (cases p)
    show ?thesis
    proof (cases "w = Boolean False")
      case True
      with eq Inr p k' show ?thesis by simp
    next
      case False
      with Suc.prems(3) Inr p have nb: "ev b env s1 \<noteq> Inl OutOfFuel"
        by (auto split: sum.splits)
      with Suc.prems(1) have eqb: "ev' b env s1 = ev b env s1" by (rule extendsD)
      show ?thesis
      proof (cases "ev b env s1")
        case (Inl e)
        with eq eqb Inr p False k' show ?thesis by simp
      next
        case (Inr q)
        obtain x s2 where q: "q = (x, s2)" by (cases q)
        from Suc.prems(3) \<open>ev c env s = Inr p\<close> p False Inr q
        have "while_loop ev k c b env s2 \<noteq> Inl OutOfFuel" by simp
        from Suc.IH[OF Suc.prems(1) kj this] eq eqb \<open>ev c env s = Inr p\<close> p False Inr q k'
        show ?thesis by simp
      qed
    qed
  qed
qed

lemma call_native_fuel: "call_native name arguments s \<noteq> Inl OutOfFuel"
proof -
  have e: "\<And>a b r. exact a b r \<noteq> Inl OutOfFuel" by (simp add: exact_def)
  have n: "\<And>a b. number_eq a b \<noteq> Inl OutOfFuel" by (simp add: number_eq_def)
  have t: "\<And>a b. number_text_eq a b \<noteq> Inl OutOfFuel"
    by (simp add: number_text_eq_def n split: option.splits)
  have l: "\<And>a b. loose_equals a b \<noteq> Inl OutOfFuel"
  proof -
    fix a b show "loose_equals a b \<noteq> Inl OutOfFuel"
      by (cases "(a, b)" rule: loose_equals.cases) (simp_all add: n t)
  qed
  have b: "\<And>op a b. binary_operator op a b \<noteq> Inl OutOfFuel"
  proof -
    fix op a b show "binary_operator op a b \<noteq> Inl OutOfFuel"
      by (cases "(op, a, b)" rule: binary_operator.cases) (simp_all add: e n l t)
  qed
  have len: "\<And>a. topEnv_length a \<noteq> Inl OutOfFuel"
    by (simp add: topEnv_length_def split: val.splits)
  have el: "\<And>a i. topEnv_element a i \<noteq> Inl OutOfFuel"
    by (simp add: topEnv_element_def split: val.splits)
  show ?thesis
    using b[of name "argument arguments 0" "argument arguments 1"]
      len[of "argument arguments 0"] el[of "argument arguments 0" "argument arguments 1"]
    by (auto simp: call_native_def split: sum.splits)
qed

lemma apply_function_extends:
  "extends ev ev' \<Longrightarrow> apply_function ev f arguments s \<noteq> Inl OutOfFuel
     \<Longrightarrow> apply_function ev' f arguments s = apply_function ev f arguments s"
  by (cases f) (auto simp: apply_function_def Object_create_def dest: extendsD)

lemma specialForms_extends:
  assumes "extends ev ev'" and "k \<le> k'" and "specialForms name = Some form"
    and "form ev k args env s \<noteq> Inl OutOfFuel"
  shows "form ev' k' args env s = form ev k args env s"
proof -
  from assms(3) consider "form = specialForms_if" | "form = specialForms_while"
    | "form = specialForms_do" | "form = specialForms_define" | "form = specialForms_fun"
    | "form = specialForms_set"
    by (auto simp: specialForms_def split: if_splits)
  then show ?thesis
  proof cases
    case 1
    show ?thesis
    proof (cases "length args \<noteq> 3")
      case True
      with 1 show ?thesis by (simp add: specialForms_if_def)
    next
      case False
      with assms(4) 1 have ne: "ev (args ! 0) env s \<noteq> Inl OutOfFuel"
        by (auto simp: specialForms_if_def split: sum.splits)
      with assms(1) have eq: "ev' (args ! 0) env s = ev (args ! 0) env s"
        by (rule extendsD)
      show ?thesis
      proof (cases "ev (args ! 0) env s")
        case (Inl e)
        with eq 1 False show ?thesis by (simp add: specialForms_if_def)
      next
        case (Inr p)
        obtain c s1 where p: "p = (c, s1)" by (cases p)
        from assms(4) 1 False Inr p
        have "(if c \<noteq> Boolean False then ev (args ! 1) env s1 else ev (args ! 2) env s1)
            \<noteq> Inl OutOfFuel"
          by (simp add: specialForms_if_def)
        then have "(if c \<noteq> Boolean False then ev' (args ! 1) env s1 else ev' (args ! 2) env s1)
            = (if c \<noteq> Boolean False then ev (args ! 1) env s1 else ev (args ! 2) env s1)"
          using assms(1) by (auto dest: extendsD split: if_splits)
        with eq 1 False Inr p show ?thesis by (simp add: specialForms_if_def)
      qed
    qed
  next
    case 2
    with assms(4) while_loop_extends[OF assms(1,2)] show ?thesis
      by (auto simp: specialForms_while_def)
  next
    case 3
    with assms(4) forEach_do_extends[OF assms(1)] show ?thesis
      by (auto simp: specialForms_do_def)
  next
    case 4
    show ?thesis
    proof (cases "length args \<noteq> 2 \<or> \<not> is_word (args ! 0)")
      case True
      with 4 show ?thesis by (auto simp: specialForms_define_def)
    next
      case False
      with assms(4) 4 have ne: "ev (args ! 1) env s \<noteq> Inl OutOfFuel"
        by (auto simp: specialForms_define_def split: sum.splits)
      with assms(1) have "ev' (args ! 1) env s = ev (args ! 1) env s" by (rule extendsD)
      with 4 show ?thesis by (simp add: specialForms_define_def)
    qed
  next
    case 5
    then show ?thesis by (simp add: specialForms_fun_def)
  next
    case 6
    show ?thesis
    proof (cases "length args \<noteq> 2 \<or> \<not> is_word (args ! 0)")
      case True
      with 6 show ?thesis by (auto simp: specialForms_set_def)
    next
      case False
      with assms(4) 6 have ne: "ev (args ! 1) env s \<noteq> Inl OutOfFuel"
        by (auto simp: specialForms_set_def split: sum.splits)
      with assms(1) have "ev' (args ! 1) env s = ev (args ! 1) env s" by (rule extendsD)
      with 6 show ?thesis by (simp add: specialForms_set_def)
    qed
  qed
qed

lemma evaluate_extends: "extends (evaluate n) (evaluate (n + d))"
proof (induction n)
  case 0
  show ?case by (simp add: extends_def)
next
  case (Suc n)
  show ?case
    unfolding extends_def
  proof (intro allI impI)
    fix e env s
    assume ne: "evaluate (Suc n) e env s \<noteq> Inl OutOfFuel"
    show "evaluate (Suc n + d) e env s = evaluate (Suc n) e env s"
    proof (cases e)
      case (Value v)
      then show ?thesis by simp
    next
      case (Word name)
      then show ?thesis by simp
    next
      case (Apply operator args)
      show ?thesis
      proof (cases "case operator of Word name \<Rightarrow> specialForms name | _ \<Rightarrow> None")
        case (Some form)
        then obtain name where "specialForms name = Some form"
          by (cases operator) auto
        from specialForms_extends[OF Suc _ this, of n "n + d" args env s] ne Apply Some
        show ?thesis by simp
      next
        case None
        with ne Apply have n1: "evaluate n operator env s \<noteq> Inl OutOfFuel"
          by (auto split: sum.splits)
        with Suc have eq: "evaluate (n + d) operator env s = evaluate n operator env s"
          by (rule extendsD)
        show ?thesis
        proof (cases "evaluate n operator env s")
          case (Inl x)
          with eq Apply None show ?thesis by simp
        next
          case (Inr p)
          obtain op s1 where p: "p = (op, s1)" by (cases p)
          show ?thesis
          proof (cases "is_function op")
            case False
            with eq Apply None Inr p show ?thesis by simp
          next
            case True
            with ne Apply None Inr p
            have n2: "map_evaluate (evaluate n) args env s1 \<noteq> Inl OutOfFuel"
              by (auto split: sum.splits)
            from map_evaluate_extends[OF Suc n2]
            have eq2: "map_evaluate (evaluate (n + d)) args env s1
                = map_evaluate (evaluate n) args env s1" .
            show ?thesis
            proof (cases "map_evaluate (evaluate n) args env s1")
              case (Inl x)
              with eq eq2 Apply None Inr p True show ?thesis by simp
            next
              case (Inr q)
              obtain vals s2 where q: "q = (vals, s2)" by (cases q)
              from ne Apply None \<open>evaluate n operator env s = Inr p\<close> p True Inr q
              have "apply_function (evaluate n) op vals s2 \<noteq> Inl OutOfFuel" by simp
              from apply_function_extends[OF Suc this]
                eq eq2 Apply None \<open>evaluate n operator env s = Inr p\<close> p True Inr q
              show ?thesis by simp
            qed
          qed
        qed
      qed
    qed
  qed
qed

lemma evaluate_fuel:
  "evaluate n e env s = r \<Longrightarrow> r \<noteq> Inl OutOfFuel \<Longrightarrow> n \<le> m \<Longrightarrow> evaluate m e env s = r"
  using extendsD[OF evaluate_extends[of n "m - n"], of e env s] by simp

lemma run_fuel:
  "run n arguments = r \<Longrightarrow> r \<noteq> Inl OutOfFuel \<Longrightarrow> n \<le> m \<Longrightarrow> run m arguments = r"
  by (auto simp: run_def Object_create_def split: sum.splits intro: evaluate_fuel)

lemma result_value_fuel:
  assumes "result_value (run n arguments) = Inr v" and "n \<le> m"
  shows "result_value (run m arguments) = Inr v"
proof -
  from assms(1) obtain s where "run n arguments = Inr (v, s)"
    by (auto simp: result_value_def split: sum.splits)
  from run_fuel[OF this _ assms(2)] show ?thesis by (simp add: result_value_def)
qed

lemma result_error_fuel:
  assumes "result_value (run n arguments) = Inl e" and "e \<noteq> OutOfFuel" and "n \<le> m"
  shows "result_value (run m arguments) = Inl e"
proof -
  from assms(1) have "run n arguments = Inl e"
    by (auto simp: result_value_def split: sum.splits)
  from run_fuel[OF this _ assms(3)] assms(2) show ?thesis by (simp add: result_value_def)
qed

subsection \<open>Dispatch to special forms\<close>

lemma specialForms_names [simp]:
  "specialForms ''if'' = Some specialForms_if"
  "specialForms ''while'' = Some specialForms_while"
  "specialForms ''do'' = Some specialForms_do"
  "specialForms ''define'' = Some specialForms_define"
  "specialForms ''fun'' = Some specialForms_fun"
  "specialForms ''set'' = Some specialForms_set"
  by (simp_all add: specialForms_def)

lemma run_define_if:
  "4 \<le> fuel \<Longrightarrow>
     result_value (run fuel [''do(define(if, 5), if(true, if, 2))'']) = Inr (Number 5)"
  by (rule result_value_fuel[where n = 4], code_simp, assumption)

text \<open>
  C3: an application whose operator is the word \<open>if\<close>, \<open>while\<close>, \<open>do\<close>, \<open>define\<close>,
  \<open>set\<close> or \<open>fun\<close> is evaluated by the special form of that name, on the argument
  expressions as they were parsed, in every environment and state: a binding of the name
  plays no part. After \<open>define(if, 5)\<close> the word \<open>if\<close> is a variable with value 5, and
  \<open>if(true, if, 2)\<close> is still the conditional (with 4 steps or more).
\<close>

theorem special_form_dispatch:
  "evaluate (Suc n) (Apply (Word ''if'') args) env s
     = specialForms_if (evaluate n) n args env s
 \<and> evaluate (Suc n) (Apply (Word ''while'') args) env s
     = specialForms_while (evaluate n) n args env s
 \<and> evaluate (Suc n) (Apply (Word ''do'') args) env s
     = specialForms_do (evaluate n) n args env s
 \<and> evaluate (Suc n) (Apply (Word ''define'') args) env s
     = specialForms_define (evaluate n) n args env s
 \<and> evaluate (Suc n) (Apply (Word ''set'') args) env s
     = specialForms_set (evaluate n) n args env s
 \<and> evaluate (Suc n) (Apply (Word ''fun'') args) env s
     = specialForms_fun (evaluate n) n args env s
 \<and> (4 \<le> fuel \<longrightarrow>
      result_value (run fuel [''do(define(if, 5), if(true, if, 2))'']) = Inr (Number 5))"
  by (simp add: run_define_if)

theorem special_form_dispatch_witness:
  "has_property ''if'' topEnv \<lparr>frames = [[(''if'', Number 5)]], console = []\<rparr>
 \<and> evaluate 2 (Apply (Word ''if'') [Value (Boolean False), Word ''if'', Value (Number 2)]) topEnv
       \<lparr>frames = [[(''if'', Number 5)]], console = []\<rparr>
     = Inr (Number 2, \<lparr>frames = [[(''if'', Number 5)]], console = []\<rparr>)
 \<and> (4::nat) \<le> 9
 \<and> result_value (run 9 [''do(define(if, 5), if(true, if, 2))'']) = Inr (Number 5)"
proof -
  let ?s = "\<lparr>frames = [[(''if'', Number 5)]], console = []\<rparr>"
  let ?args = "[Value (Boolean False), Word ''if'', Value (Number 2)]"
  have "evaluate (Suc 1) (Apply (Word ''if'') ?args) topEnv ?s
      = specialForms_if (evaluate 1) 1 ?args topEnv ?s"
    using special_form_dispatch[where n = 1 and args = ?args and env = topEnv and s = ?s]
    by blast
  moreover have "specialForms_if (evaluate 1) 1 ?args topEnv ?s = Inr (Number 2, ?s)"
    by (simp add: specialForms_if_def)
  moreover have "has_property ''if'' topEnv ?s"
    by (simp add: topEnv_def hasOwnProperty_def own_def)
  moreover have "result_value (run 9 [''do(define(if, 5), if(true, if, 2))'']) = Inr (Number 5)"
    using special_form_dispatch[where fuel = 9] by simp
  ultimately show ?thesis by (simp add: eval_nat_numeral)
qed

subsection \<open>if\<close>

lemma run_if_examples:
  "3 \<le> fuel \<Longrightarrow> result_value (run fuel [''if(true, 1, 2)'']) = Inr (Number 1)"
  "3 \<le> fuel \<Longrightarrow> result_value (run fuel [''if(false, 1, 2)'']) = Inr (Number 2)"
  "3 \<le> fuel \<Longrightarrow> result_value (run fuel [''if(true, 1, nosuch)'']) = Inr (Number 1)"
  "3 \<le> fuel \<Longrightarrow> result_value (run fuel [''if(false, nosuch, 2)'']) = Inr (Number 2)"
  by (rule result_value_fuel[where n = 3], code_simp, assumption)+

lemma run_if_print:
  "4 \<le> fuel \<Longrightarrow> run fuel [''if(true, 1, print(2))'']
     = Inr (Number 1, \<lparr>frames = [topEnv_properties, []], console = []\<rparr>)"
  by (rule run_fuel[where n = 4], code_simp, simp, assumption)

text \<open>
  C5: \<open>if\<close> with other than three argument expressions is a SyntaxError. With three, the
  first is evaluated; an error of it is the error of the whole; when its value is not the
  Boolean false the result is the evaluation of the second argument in the state the
  condition left, and when it is the Boolean false, of the third. The other branch does
  not occur in the result: an unbound word or a \<open>print\<close> there has no effect. So
  \<open>if(true, 1, 2)\<close> evaluates to 1 and \<open>if(false, 1, 2)\<close> to 2, with 3 steps or more.
\<close>

theorem if_form:
  "(length args \<noteq> 3 \<longrightarrow>
      evaluate (Suc n) (Apply (Word ''if'') args) env s = Inl SyntaxError)
 \<and> (evaluate n c env s = Inl err \<longrightarrow>
      evaluate (Suc n) (Apply (Word ''if'') [c, t, e]) env s = Inl err)
 \<and> (evaluate n c env s = Inr (v, s1) \<and> v \<noteq> Boolean False \<longrightarrow>
      evaluate (Suc n) (Apply (Word ''if'') [c, t, e]) env s = evaluate n t env s1)
 \<and> (evaluate n c env s = Inr (Boolean False, s1) \<longrightarrow>
      evaluate (Suc n) (Apply (Word ''if'') [c, t, e]) env s = evaluate n e env s1)
 \<and> (3 \<le> fuel \<longrightarrow>
      result_value (run fuel [''if(true, 1, 2)'']) = Inr (Number 1)
    \<and> result_value (run fuel [''if(false, 1, 2)'']) = Inr (Number 2)
    \<and> result_value (run fuel [''if(true, 1, nosuch)'']) = Inr (Number 1)
    \<and> result_value (run fuel [''if(false, nosuch, 2)'']) = Inr (Number 2))
 \<and> (4 \<le> fuel \<longrightarrow>
      run fuel [''if(true, 1, print(2))'']
        = Inr (Number 1, \<lparr>frames = [topEnv_properties, []], console = []\<rparr>))"
  by (simp add: specialForms_if_def run_if_examples run_if_print)

theorem if_form_witness:
  "length [Value (Number 1)] \<noteq> 3
 \<and> evaluate 2 (Apply (Word ''if'') [Value (Number 1)]) topEnv initial = Inl SyntaxError
 \<and> evaluate 1 (Word ''nosuch'') topEnv initial = Inl ReferenceError
 \<and> evaluate 2 (Apply (Word ''if'') [Word ''nosuch'', Value (Number 1), Value (Number 2)])
       topEnv initial = Inl ReferenceError
 \<and> evaluate 1 (Value (Text ''c'')) topEnv initial = Inr (Text ''c'', initial)
 \<and> Text ''c'' \<noteq> Boolean False
 \<and> evaluate 2 (Apply (Word ''if'') [Value (Text ''c''), Value (Number 1), Word ''nosuch''])
       topEnv initial = Inr (Number 1, initial)
 \<and> evaluate 1 (Word ''false'') topEnv initial = Inr (Boolean False, initial)
 \<and> evaluate 2 (Apply (Word ''if'') [Word ''false'', Word ''nosuch'', Value (Number 2)])
       topEnv initial = Inr (Number 2, initial)
 \<and> (3::nat) \<le> 4 \<and> (4::nat) \<le> 4
 \<and> result_value (run 4 [''if(false, nosuch, 2)'']) = Inr (Number 2)
 \<and> run 4 [''if(true, 1, print(2))'']
     = Inr (Number 1, \<lparr>frames = [topEnv_properties, []], console = []\<rparr>)"
proof -
  have n: "evaluate 1 (Word ''nosuch'') topEnv initial = Inl ReferenceError"
    and c: "evaluate 1 (Value (Text ''c'')) topEnv initial = Inr (Text ''c'', initial)"
    and f: "evaluate 1 (Word ''false'') topEnv initial = Inr (Boolean False, initial)"
    by code_simp+
  have "evaluate (Suc 1) (Apply (Word ''if'') [Value (Number 1)]) topEnv initial
      = Inl SyntaxError"
    using if_form[where args = "[Value (Number 1)]" and n = 1 and env = topEnv and s = initial]
    by simp
  moreover
  have "evaluate (Suc 1) (Apply (Word ''if'') [Word ''nosuch'', Value (Number 1), Value (Number 2)])
          topEnv initial = Inl ReferenceError"
    using if_form[where n = 1 and c = "Word ''nosuch''" and env = topEnv and s = initial
        and t = "Value (Number 1)" and e = "Value (Number 2)" and err = ReferenceError] n
    by blast
  moreover
  have "evaluate (Suc 1) (Apply (Word ''if'') [Value (Text ''c''), Value (Number 1), Word ''nosuch''])
          topEnv initial = evaluate 1 (Value (Number 1)) topEnv initial"
    using if_form[where n = 1 and c = "Value (Text ''c'')" and env = topEnv and s = initial
        and t = "Value (Number 1)" and e = "Word ''nosuch''" and v = "Text ''c''" and ?s1.0 = initial] c
    by blast
  moreover
  have "evaluate (Suc 1) (Apply (Word ''if'') [Word ''false'', Word ''nosuch'', Value (Number 2)])
          topEnv initial = evaluate 1 (Value (Number 2)) topEnv initial"
    using if_form[where n = 1 and c = "Word ''false''" and env = topEnv and s = initial
        and t = "Word ''nosuch''" and e = "Value (Number 2)" and ?s1.0 = initial] f
    by blast
  moreover
  have "result_value (run 4 [''if(false, nosuch, 2)'']) = Inr (Number 2)"
    "run 4 [''if(true, 1, print(2))'']
       = Inr (Number 1, \<lparr>frames = [topEnv_properties, []], console = []\<rparr>)"
    using if_form[where fuel = 4] by simp_all
  ultimately show ?thesis using n c f by (simp add: eval_nat_numeral)
qed

subsection \<open>while\<close>

lemma while_loop_result:
  "while_loop ev k c b env s = Inr (v, s') \<Longrightarrow>
     v = Boolean False \<and> (\<exists>s0. ev c env s0 = Inr (Boolean False, s'))"
proof (induction k arbitrary: s)
  case 0
  then show ?case by simp
next
  case (Suc k)
  show ?case
  proof (cases "ev c env s")
    case (Inl e)
    with Suc.prems show ?thesis by simp
  next
    case (Inr p)
    obtain w s1 where p: "p = (w, s1)" by (cases p)
    show ?thesis
    proof (cases "w = Boolean False")
      case True
      with Suc.prems Inr p show ?thesis by auto
    next
      case False
      with Suc.prems Inr p obtain x s2 where "ev b env s1 = Inr (x, s2)"
        and "while_loop ev k c b env s2 = Inr (v, s')"
        by (auto split: sum.splits)
      with Suc.IH show ?thesis by blast
    qed
  qed
qed

lemma run_while_example:
  "12 \<le> fuel \<Longrightarrow>
     result_value (run fuel [''do(define(n, 0), while(<(n, 3), define(n, +(n, 1))))''])
       = Inr (Boolean False)"
  by (rule result_value_fuel[where n = 12], code_simp, assumption)

text \<open>
  C7: \<open>while\<close> with other than two argument expressions is a SyntaxError. Whenever a
  \<open>while\<close> returns, it returns the Boolean false, it had two arguments, and the state it
  returns is the one left by an evaluation of the condition that gave the Boolean false.
  One round: the condition is evaluated; on false the loop ends, otherwise the body is
  evaluated, its value dropped, and the loop goes on from the state the body left. A loop
  that counts to 3 returns false, whatever its body evaluated to.
\<close>

theorem while_form:
  "(length args \<noteq> 2 \<longrightarrow>
      evaluate (Suc n) (Apply (Word ''while'') args) env s = Inl SyntaxError)
 \<and> (evaluate m (Apply (Word ''while'') args) env s = Inr (v, s') \<longrightarrow>
      v = Boolean False \<and> length args = 2
      \<and> (\<exists>s0. evaluate (m - 1) (args ! 0) env s0 = Inr (Boolean False, s')))
 \<and> evaluate (Suc (Suc k)) (Apply (Word ''while'') [c, b]) env s =
      (case evaluate (Suc k) c env s of
         Inl e \<Rightarrow> Inl e
       | Inr (w, s1) \<Rightarrow>
           if w = Boolean False then Inr (Boolean False, s1)
           else (case evaluate (Suc k) b env s1 of
                   Inl e \<Rightarrow> Inl e
                 | Inr (x, s2) \<Rightarrow> while_loop (evaluate (Suc k)) k c b env s2))
 \<and> (12 \<le> fuel \<longrightarrow>
      result_value (run fuel [''do(define(n, 0), while(<(n, 3), define(n, +(n, 1))))''])
        = Inr (Boolean False))"
proof -
  have a: "length args \<noteq> 2 \<longrightarrow>
      evaluate (Suc n) (Apply (Word ''while'') args) env s = Inl SyntaxError"
    by (simp add: specialForms_while_def)
  have b: "evaluate m (Apply (Word ''while'') args) env s = Inr (v, s') \<longrightarrow>
      v = Boolean False \<and> length args = 2
      \<and> (\<exists>s0. evaluate (m - 1) (args ! 0) env s0 = Inr (Boolean False, s'))"
  proof
    assume r: "evaluate m (Apply (Word ''while'') args) env s = Inr (v, s')"
    then obtain j where m: "m = Suc j" by (cases m) auto
    with r have sf: "specialForms_while (evaluate j) j args env s = Inr (v, s')"
      by simp
    then have len: "length args = 2"
      by (auto simp: specialForms_while_def split: if_splits)
    with sf have "while_loop (evaluate j) j (args ! 0) (args ! 1) env s = Inr (v, s')"
      by (simp add: specialForms_while_def)
    from while_loop_result[OF this] len m
    show "v = Boolean False \<and> length args = 2
      \<and> (\<exists>s0. evaluate (m - 1) (args ! 0) env s0 = Inr (Boolean False, s'))"
      by simp
  qed
  have c: "evaluate (Suc (Suc k)) (Apply (Word ''while'') [c, b]) env s =
      (case evaluate (Suc k) c env s of
         Inl e \<Rightarrow> Inl e
       | Inr (w, s1) \<Rightarrow>
           if w = Boolean False then Inr (Boolean False, s1)
           else (case evaluate (Suc k) b env s1 of
                   Inl e \<Rightarrow> Inl e
                 | Inr (x, s2) \<Rightarrow> while_loop (evaluate (Suc k)) k c b env s2))"
    by (simp add: specialForms_while_def split: sum.splits prod.splits)
  from a b c run_while_example show ?thesis by blast
qed

theorem while_form_witness:
  "evaluate 3 (Apply (Word ''while'') [Value (Boolean False), Value (Number 1)]) topEnv initial
     = Inr (Boolean False, initial)
 \<and> length [Value (Boolean False), Value (Number 1)] = 2
 \<and> (\<exists>s0. evaluate 2 (Value (Boolean False)) topEnv s0 = Inr (Boolean False, initial))
 \<and> length [Value (Number 1)] \<noteq> 2
 \<and> evaluate 3 (Apply (Word ''while'') [Value (Number 1)]) topEnv initial = Inl SyntaxError
 \<and> (12::nat) \<le> 20
 \<and> result_value (run 20 [''do(define(n, 0), while(<(n, 3), define(n, +(n, 1))))''])
     = Inr (Boolean False)"
proof -
  let ?args = "[Value (Boolean False), Value (Number 1)]"
  have r: "evaluate 3 (Apply (Word ''while'') ?args) topEnv initial = Inr (Boolean False, initial)"
    by code_simp
  have "Boolean False = Boolean False \<and> length ?args = 2
      \<and> (\<exists>s0. evaluate (3 - 1) (?args ! 0) topEnv s0 = Inr (Boolean False, initial))"
    using while_form[where m = 3 and args = ?args and env = topEnv and s = initial
        and v = "Boolean False" and s' = initial] r by blast
  moreover have "evaluate (Suc 2) (Apply (Word ''while'') [Value (Number 1)]) topEnv initial
      = Inl SyntaxError"
    using while_form[where args = "[Value (Number 1)]" and n = 2 and env = topEnv and s = initial]
    by simp
  moreover
  have "result_value (run 20 [''do(define(n, 0), while(<(n, 3), define(n, +(n, 1))))''])
     = Inr (Boolean False)"
    using while_form[where fuel = 20] by simp
  ultimately show ?thesis using r by (simp add: eval_nat_numeral)
qed


subsection \<open>Truthiness\<close>

lemma run_truthy_examples:
  "4 \<le> fuel \<Longrightarrow> result_value (run fuel [''if(0, 1, 2)'']) = Inr (Number 1)"
  "4 \<le> fuel \<Longrightarrow>
     result_value (run fuel [''if('' @ [CHR 0x22, CHR 0x22] @ '', 1, 2)'']) = Inr (Number 1)"
  "4 \<le> fuel \<Longrightarrow> result_value (run fuel [''if(array(), 1, 2)'']) = Inr (Number 1)"
  by (rule result_value_fuel[where n = 4], code_simp, assumption)+

lemma run_truthy_loop:
  "12 \<le> fuel \<Longrightarrow> result_value (run fuel
     [''do(define(c, 0), define(n, 0),'',
      ''   while(c, do(define(n, +(n, 1)), if(==(n, 3), define(c, false), 0))),'',
      ''   n)'']) = Inr (Number 3)"
  by (rule result_value_fuel[where n = 12], code_simp, assumption)

text \<open>
  C6: for \<open>if\<close> and \<open>while\<close> the Boolean false is the one falsy value. When the
  condition evaluates to any other value, \<open>if\<close> evaluates its second argument and
  \<open>while\<close> evaluates its body and goes on with the loop; when it evaluates to the Boolean
  false, \<open>if\<close> evaluates its third argument and \<open>while\<close> ends. The number 0, the empty
  text and the empty array are such other values: \<open>if\<close> takes its second argument on
  them, and a loop whose condition is the number 0 keeps running until the condition
  becomes false.
\<close>

theorem only_false_is_falsy:
  "(evaluate n c env s = Inr (v, s1) \<and> v \<noteq> Boolean False \<longrightarrow>
      evaluate (Suc n) (Apply (Word ''if'') [c, t, e]) env s = evaluate n t env s1
    \<and> evaluate (Suc n) (Apply (Word ''while'') [c, b]) env s =
        (case evaluate n b env s1 of
           Inl x \<Rightarrow> Inl x
         | Inr (w, s2) \<Rightarrow> while_loop (evaluate n) (n - 1) c b env s2))
 \<and> (evaluate n c env s = Inr (Boolean False, s1) \<longrightarrow>
      evaluate (Suc n) (Apply (Word ''if'') [c, t, e]) env s = evaluate n e env s1
    \<and> evaluate (Suc n) (Apply (Word ''while'') [c, b]) env s = Inr (Boolean False, s1))
 \<and> Number 0 \<noteq> Boolean False \<and> Text [] \<noteq> Boolean False \<and> Array [] \<noteq> Boolean False
 \<and> (4 \<le> fuel \<longrightarrow>
      result_value (run fuel [''if(0, 1, 2)'']) = Inr (Number 1)
    \<and> result_value (run fuel [''if('' @ [CHR 0x22, CHR 0x22] @ '', 1, 2)'']) = Inr (Number 1)
    \<and> result_value (run fuel [''if(array(), 1, 2)'']) = Inr (Number 1))
 \<and> (12 \<le> fuel \<longrightarrow>
      result_value (run fuel
        [''do(define(c, 0), define(n, 0),'',
         ''   while(c, do(define(n, +(n, 1)), if(==(n, 3), define(c, false), 0))),'',
         ''   n)'']) = Inr (Number 3))"
proof -
  have truthy: "evaluate (Suc n) (Apply (Word ''if'') [c, t, e]) env s = evaluate n t env s1
    \<and> evaluate (Suc n) (Apply (Word ''while'') [c, b]) env s =
        (case evaluate n b env s1 of
           Inl x \<Rightarrow> Inl x
         | Inr (w, s2) \<Rightarrow> while_loop (evaluate n) (n - 1) c b env s2)"
    if r: "evaluate n c env s = Inr (v, s1)" and v: "v \<noteq> Boolean False"
  proof -
    from r obtain j where n: "n = Suc j" by (cases n) auto
    from r v show ?thesis
      unfolding n by (simp add: specialForms_if_def specialForms_while_def split: sum.splits)
  qed
  have falsy: "evaluate (Suc n) (Apply (Word ''if'') [c, t, e]) env s = evaluate n e env s1
    \<and> evaluate (Suc n) (Apply (Word ''while'') [c, b]) env s = Inr (Boolean False, s1)"
    if r: "evaluate n c env s = Inr (Boolean False, s1)"
  proof -
    from r obtain j where n: "n = Suc j" by (cases n) auto
    from r show ?thesis
      unfolding n by (simp add: specialForms_if_def specialForms_while_def)
  qed
  from truthy falsy run_truthy_examples run_truthy_loop show ?thesis by simp
qed

theorem only_false_is_falsy_witness:
  "evaluate 1 (Value (Number 0)) topEnv initial = Inr (Number 0, initial)
 \<and> Number 0 \<noteq> Boolean False
 \<and> evaluate 2 (Apply (Word ''if'') [Value (Number 0), Value (Text ''then''), Value (Text ''else'')])
       topEnv initial = Inr (Text ''then'', initial)
 \<and> evaluate 1 (Value (Boolean False)) topEnv initial = Inr (Boolean False, initial)
 \<and> evaluate 2 (Apply (Word ''while'') [Value (Boolean False), Word ''nosuch'']) topEnv initial
     = Inr (Boolean False, initial)
 \<and> (4::nat) \<le> 12 \<and> (12::nat) \<le> 12
 \<and> result_value (run 12 [''if(array(), 1, 2)'']) = Inr (Number 1)
 \<and> result_value (run 12
     [''do(define(c, 0), define(n, 0),'',
      ''   while(c, do(define(n, +(n, 1)), if(==(n, 3), define(c, false), 0))),'',
      ''   n)'']) = Inr (Number 3)"
proof -
  have c: "evaluate 1 (Value (Number 0)) topEnv initial = Inr (Number 0, initial)"
    and d: "evaluate 1 (Value (Boolean False)) topEnv initial = Inr (Boolean False, initial)"
    by simp_all
  have "evaluate (Suc 1) (Apply (Word ''if'')
          [Value (Number 0), Value (Text ''then''), Value (Text ''else'')]) topEnv initial
      = evaluate 1 (Value (Text ''then'')) topEnv initial"
    using only_false_is_falsy[where n = 1 and c = "Value (Number 0)" and env = topEnv
        and s = initial and v = "Number 0" and ?s1.0 = initial and t = "Value (Text ''then'')"
        and e = "Value (Text ''else'')"] c
    by simp
  moreover have "evaluate (Suc 1) (Apply (Word ''while'') [Value (Boolean False), Word ''nosuch''])
        topEnv initial = Inr (Boolean False, initial)"
    using only_false_is_falsy[where n = 1 and c = "Value (Boolean False)" and env = topEnv
        and s = initial and ?s1.0 = initial and b = "Word ''nosuch''"] d
    by simp
  moreover have "result_value (run 12 [''if(array(), 1, 2)'']) = Inr (Number 1)"
    "result_value (run 12
     [''do(define(c, 0), define(n, 0),'',
      ''   while(c, do(define(n, +(n, 1)), if(==(n, 3), define(c, false), 0))),'',
      ''   n)'']) = Inr (Number 3)"
    using only_false_is_falsy[where fuel = 12] by simp_all
  ultimately show ?thesis by (simp add: eval_nat_numeral)
qed

subsection \<open>Functions\<close>

lemma put_property_frames:
  "i < length (frames s) \<Longrightarrow>
     put_property (Env i p) name v s
       = s\<lparr>frames := (frames s)[i := AList.update name v (frames s ! i)]\<rparr>"
  by (simp add: put_property_def own_def)

lemma bind_arguments_frames:
  "i < length (frames s) \<Longrightarrow>
     bind_arguments (Env i p) names vals s
       = s\<lparr>frames := (frames s)[i := AList.updates names vals (frames s ! i)]\<rparr>"
proof (induction names arbitrary: vals s)
  case Nil
  then show ?case by (simp add: bind_arguments_def)
next
  case (Cons name names)
  show ?case
  proof (cases vals)
    case Nil
    then show ?thesis by (simp add: bind_arguments_def)
  next
    case (Cons v vs)
    let ?s' = "put_property (Env i p) name v s"
    have s': "?s' = s\<lparr>frames := (frames s)[i := AList.update name v (frames s ! i)]\<rparr>"
      using Cons.prems by (rule put_property_frames)
    then have len: "i < length (frames ?s')" using Cons.prems by simp
    have "bind_arguments (Env i p) (name # names) vals s = bind_arguments (Env i p) names vs ?s'"
      using Cons by (simp add: bind_arguments_def)
    also have "\<dots> = ?s'\<lparr>frames := (frames ?s')[i := AList.updates names vs (frames ?s' ! i)]\<rparr>"
      using len by (rule Cons.IH)
    also have "\<dots> = s\<lparr>frames := (frames s)[i := AList.updates (name # names) vals (frames s ! i)]\<rparr>"
      using Cons.prems Cons by (simp add: s')
    finally show ?thesis .
  qed
qed

lemma apply_closure:
  "length arguments = length argNames \<Longrightarrow>
     apply_function ev (Function argNames body cenv) arguments t
       = ev body (Env (length (frames t)) (Some cenv))
           (t\<lparr>frames := frames t @ [AList.updates argNames arguments []]\<rparr>)"
proof -
  assume len: "length arguments = length argNames"
  let ?t1 = "t\<lparr>frames := frames t @ [[]]\<rparr>"
  have "bind_arguments (Env (length (frames t)) (Some cenv)) argNames arguments ?t1
      = ?t1\<lparr>frames := (frames ?t1)[length (frames t)
            := AList.updates argNames arguments (frames ?t1 ! length (frames t))]\<rparr>"
    by (rule bind_arguments_frames) simp
  also have "\<dots> = t\<lparr>frames := frames t @ [AList.updates argNames arguments []]\<rparr>"
    by simp
  finally show ?thesis using len by (simp add: apply_function_def Object_create_def)
qed

lemma map_upds_nth:
  "length xs = length ys \<Longrightarrow> i < length xs \<Longrightarrow> xs ! i \<notin> set (drop (Suc i) xs)
     \<Longrightarrow> (m(xs [\<mapsto>] ys)) (xs ! i) = Some (ys ! i)"
proof (induction xs arbitrary: ys i m)
  case Nil
  then show ?case by simp
next
  case (Cons x xs)
  then obtain y ys' where ys: "ys = y # ys'" by (cases ys) auto
  show ?case
  proof (cases i)
    case 0
    with Cons.prems ys show ?thesis by simp
  next
    case (Suc j)
    have "((m(x \<mapsto> y))(xs [\<mapsto>] ys')) (xs ! j) = Some (ys' ! j)"
      using Cons.prems ys Suc by (intro Cons.IH) auto
    then show ?thesis using ys Suc by simp
  qed
qed

lemma run_closure_example:
  "8 \<le> fuel \<Longrightarrow>
     result_value (run fuel [''do(define(f, fun(a, fun(b, +(a, b)))), f(4)(5))''])
       = Inr (Number 9)"
  by (rule result_value_fuel[where n = 8], code_simp, assumption)

text \<open>
  C4: the value of \<open>fun(p1, ..., pk, body)\<close> is a function that keeps the parameter
  names, the body and the environment \<open>fun\<close> was evaluated in. Called with a number of
  arguments other than its number of parameters it throws a TypeError. Called with as
  many, it evaluates the body in a new environment: a frame that did not exist before,
  whose prototype is the kept environment and whose own properties map every parameter
  name to the argument at its position (for a name that occurs twice, at its last
  position); the older frames are as they were. An application whose
  operator evaluates to such a function calls it so, with the values of its arguments.
  The program \<open>do(define(f, fun(a, fun(b, +(a, b)))), f(4)(5))\<close> evaluates to 9, with 8
  steps or more.
\<close>

theorem closure_invocation:
  "(evaluate (Suc n) (Apply (Word ''fun'') params) env s = Inr (f, s') \<longrightarrow>
      f = Function (map name_of (butlast params)) (last params) env \<and> s' = s)
 \<and> (length arguments \<noteq> length argNames \<longrightarrow>
      apply_function ev (Function argNames body cenv) arguments t = Inl TypeError)
 \<and> (length arguments = length argNames \<longrightarrow>
      apply_function ev (Function argNames body cenv) arguments t
        = ev body (Env (length (frames t)) (Some cenv))
            (t\<lparr>frames := frames t @ [AList.updates argNames arguments []]\<rparr>)
      \<and> map_of (AList.updates argNames arguments []) = Map.empty (argNames [\<mapsto>] arguments)
      \<and> (\<forall>i<length argNames. argNames ! i \<notin> set (drop (Suc i) argNames) \<longrightarrow>
            map_of (AList.updates argNames arguments []) (argNames ! i) = Some (arguments ! i)))
 \<and> ((case operator of Word name \<Rightarrow> specialForms name | _ \<Rightarrow> None) = None
      \<and> evaluate n operator env s = Inr (Function argNames body cenv, s1)
      \<and> map_evaluate (evaluate n) args env s1 = Inr (arguments, t) \<longrightarrow>
      evaluate (Suc n) (Apply operator args) env s
        = apply_function (evaluate n) (Function argNames body cenv) arguments t)
 \<and> (8 \<le> fuel \<longrightarrow>
      result_value (run fuel [''do(define(f, fun(a, fun(b, +(a, b)))), f(4)(5))''])
        = Inr (Number 9))"
proof -
  have a: "evaluate (Suc n) (Apply (Word ''fun'') params) env s = Inr (f, s') \<longrightarrow>
      f = Function (map name_of (butlast params)) (last params) env \<and> s' = s"
    by (auto simp: specialForms_fun_def split: if_splits)
  have b: "length arguments \<noteq> length argNames \<longrightarrow>
      apply_function ev (Function argNames body cenv) arguments t = Inl TypeError"
    by (simp add: apply_function_def)
  have c: "length arguments = length argNames \<longrightarrow>
      apply_function ev (Function argNames body cenv) arguments t
        = ev body (Env (length (frames t)) (Some cenv))
            (t\<lparr>frames := frames t @ [AList.updates argNames arguments []]\<rparr>)
      \<and> map_of (AList.updates argNames arguments []) = Map.empty (argNames [\<mapsto>] arguments)
      \<and> (\<forall>i<length argNames. argNames ! i \<notin> set (drop (Suc i) argNames) \<longrightarrow>
            map_of (AList.updates argNames arguments []) (argNames ! i) = Some (arguments ! i))"
    by (simp add: apply_closure updates_conv' map_upds_nth)
  have d: "(case operator of Word name \<Rightarrow> specialForms name | _ \<Rightarrow> None) = None
      \<and> evaluate n operator env s = Inr (Function argNames body cenv, s1)
      \<and> map_evaluate (evaluate n) args env s1 = Inr (arguments, t) \<longrightarrow>
      evaluate (Suc n) (Apply operator args) env s
        = apply_function (evaluate n) (Function argNames body cenv) arguments t"
    by (simp add: is_function_def)
  from a b c d run_closure_example show ?thesis by blast
qed

theorem closure_invocation_witness:
  "evaluate 1 (Apply (Word ''fun'') [Word ''a'', Word ''a'']) topEnv initial
     = Inr (Function [''a''] (Word ''a'') topEnv, initial)
 \<and> apply_function (evaluate 1) (Function [''a''] (Word ''a'') topEnv) [] initial = Inl TypeError
 \<and> apply_function (evaluate 1) (Function [''a''] (Word ''a'') topEnv) [Number 7] initial
     = Inr (Number 7, \<lparr>frames = [topEnv_properties, [(''a'', Number 7)]], console = []\<rparr>)
 \<and> evaluate 2 (Apply (Word ''fun'') [Word ''a'', Word ''a'']) topEnv initial
     = Inr (Function [''a''] (Word ''a'') topEnv, initial)
 \<and> map_evaluate (evaluate 2) [Value (Number 7)] topEnv initial = Inr ([Number 7], initial)
 \<and> evaluate 3 (Apply (Apply (Word ''fun'') [Word ''a'', Word ''a'']) [Value (Number 7)])
       topEnv initial
     = Inr (Number 7, \<lparr>frames = [topEnv_properties, [(''a'', Number 7)]], console = []\<rparr>)
 \<and> (8::nat) \<le> 8
 \<and> result_value (run 8 [''do(define(f, fun(a, fun(b, +(a, b)))), f(4)(5))''])
     = Inr (Number 9)"
proof -
  let ?f = "Function [''a''] (Word ''a'') topEnv"
  let ?op = "Apply (Word ''fun'') [Word ''a'', Word ''a'']"
  let ?t = "\<lparr>frames = [topEnv_properties, [(''a'', Number 7)]], console = []\<rparr>"
  have f1: "evaluate (Suc 0) ?op topEnv initial = Inr (?f, initial)"
    and f2: "evaluate 2 ?op topEnv initial = Inr (?f, initial)"
    by (simp_all add: specialForms_fun_def is_word_def name_of_def eval_nat_numeral)
  have "Function [''a''] (Word ''a'') topEnv
      = Function (map name_of (butlast [Word ''a'', Word ''a''])) (last [Word ''a'', Word ''a'']) topEnv
    \<and> initial = initial"
    using closure_invocation[where n = 0 and params = "[Word ''a'', Word ''a'']" and env = topEnv
        and s = initial and f = ?f and s' = initial] f1
    by blast
  have te: "apply_function (evaluate 1) ?f [] initial = Inl TypeError"
    using closure_invocation[where arguments = "[]" and argNames = "[''a'']" and ev = "evaluate 1"
        and body = "Word ''a''" and cenv = topEnv and t = initial]
    by simp
  have ok: "\<And>k. apply_function (evaluate k) ?f [Number 7] initial
      = evaluate k (Word ''a'') (Env (length (frames initial)) (Some topEnv))
          (initial\<lparr>frames := frames initial @ [AList.updates [''a''] [Number 7] []]\<rparr>)"
    using closure_invocation[where arguments = "[Number 7]" and argNames = "[''a'']"
        and body = "Word ''a''" and cenv = topEnv and t = initial]
    by simp
  have me: "map_evaluate (evaluate 2) [Value (Number 7)] topEnv initial = Inr ([Number 7], initial)"
    by (simp add: eval_nat_numeral)
  have ap: "evaluate (Suc 2) (Apply ?op [Value (Number 7)]) topEnv initial
      = apply_function (evaluate 2) ?f [Number 7] initial"
    using closure_invocation[where operator = ?op and n = 2 and env = topEnv and s = initial
        and argNames = "[''a'']" and body = "Word ''a''" and cenv = topEnv and ?s1.0 = initial
        and args = "[Value (Number 7)]" and arguments = "[Number 7]" and t = initial] f2 me
    by simp
  have r9: "result_value (run 8 [''do(define(f, fun(a, fun(b, +(a, b)))), f(4)(5))''])
     = Inr (Number 9)"
    using closure_invocation[where fuel = 8] by simp
  have v1: "apply_function (evaluate 1) ?f [Number 7] initial = Inr (Number 7, ?t)"
    unfolding ok by (simp add: initial_def hasOwnProperty_def own_def topEnv_def)
  have v2: "apply_function (evaluate 2) ?f [Number 7] initial = Inr (Number 7, ?t)"
    unfolding ok by (simp add: initial_def hasOwnProperty_def own_def topEnv_def eval_nat_numeral)
  from f1 f2 te me ap r9 v1 v2 show ?thesis by (simp add: eval_nat_numeral)
qed

subsection \<open>set\<close>

lemma run_set_errors:
  "3 \<le> fuel \<Longrightarrow> result_value (run fuel [''set(true, false)'']) = Inl ReferenceError"
  "3 \<le> fuel \<Longrightarrow> result_value (run fuel [''set(quux, true)'']) = Inl ReferenceError"
  by (rule result_error_fuel[where n = 3], code_simp, simp, assumption)+

lemma run_set_example:
  "8 \<le> fuel \<Longrightarrow>
     result_value (run fuel
       [''do(define(x, 4), define(setx, fun(val, set(x, val))), setx(50), x)''])
       = Inr (Number 50)"
  by (rule result_value_fuel[where n = 8], code_simp, assumption)

lemma set_in_topEnv:
  "result_value (evaluate 4 (Apply (Word ''do'')
      [Apply (Word ''define'') [Word ''x'', Value (Number 1)],
       Apply (Word ''set'') [Word ''x'', Value (Number 2)]]) topEnv initial) = Inl ReferenceError"
  "result_value (evaluate 4 (Apply (Word ''do'')
      [Apply (Word ''define'') [Word ''x'', Value (Number 1)], Word ''x'']) topEnv initial)
     = Inr (Number 1)"
  by code_simp+

text \<open>
  C1, as the code behaves: the loop of \<open>set\<close> ends when it reaches an environment without
  prototype, before looking at that environment's own properties. So \<open>set\<close> on a name
  that only the root environment owns is a ReferenceError: \<open>set(true, false)\<close> run as a
  program, and \<open>set(x, 2)\<close> after \<open>define(x, 1)\<close> evaluated in \<open>topEnv\<close> itself, where
  the word \<open>x\<close> evaluates to 1. A name that no frame owns is a ReferenceError too, and a
  name owned by a frame below the root is assigned there (the program of the source's
  comment evaluates to 50).
\<close>

theorem set_skips_root_frame:
  "hasOwnProperty initial topEnv ''true''
 \<and> (3 \<le> fuel \<longrightarrow>
      result_value (run fuel [''set(true, false)'']) = Inl ReferenceError
    \<and> result_value (run fuel [''set(quux, true)'']) = Inl ReferenceError)
 \<and> result_value (evaluate 4 (Apply (Word ''do'')
      [Apply (Word ''define'') [Word ''x'', Value (Number 1)],
       Apply (Word ''set'') [Word ''x'', Value (Number 2)]]) topEnv initial) = Inl ReferenceError
 \<and> result_value (evaluate 4 (Apply (Word ''do'')
      [Apply (Word ''define'') [Word ''x'', Value (Number 1)], Word ''x'']) topEnv initial)
     = Inr (Number 1)
 \<and> set_walk toSet v (Env i None) s = Inl ReferenceError
 \<and> (8 \<le> fuel \<longrightarrow>
      result_value (run fuel
        [''do(define(x, 4), define(setx, fun(val, set(x, val))), setx(50), x)''])
        = Inr (Number 50))"
proof -
  have "hasOwnProperty initial topEnv ''true''"
    by (simp add: hasOwnProperty_def own_def initial_def topEnv_def topEnv_properties_def)
  with run_set_errors run_set_example set_in_topEnv show ?thesis by simp
qed

theorem set_skips_root_frame_witness:
  "hasOwnProperty initial topEnv ''true''
 \<and> (3::nat) \<le> 8 \<and> (8::nat) \<le> 8
 \<and> result_value (run 8 [''set(true, false)'']) = Inl ReferenceError
 \<and> result_value (run 8
      [''do(define(x, 4), define(setx, fun(val, set(x, val))), setx(50), x)''])
     = Inr (Number 50)"
  using set_skips_root_frame[where fuel = 8] by simp

subsection \<open>Equality\<close>









end
